theory Spec2Isabelle
  imports Complex_Main "HOL-Library.Monad_Syntax" "HOL-Library.AList" "HOL-Library.Sublist"
    "HOL-Library.Char_ord" "HOL-Library.List_Lexorder"
begin

section \<open>Python values used by adb/contrib/high.py\<close>

text \<open>
  The module is Python 2. Byte strings are \<^typ>\<open>string\<close>, \<open>None\<close> is the \<open>None\<close> of an
  option type, Python's unbounded integers are \<^typ>\<open>int\<close>, the seconds of \<open>time.time()\<close>
  are \<^typ>\<open>real\<close>. What the device answers is taken to be ASCII text. Every exception the
  modelled code can raise is a value of \<open>exn\<close>.
\<close>

datatype exn = AssertionError | ValueError | TypeError | IndexError | AttributeError

text \<open>Truth value of an optional string: \<open>None\<close> and \<open>''\<close> are false.\<close>

definition truthy_str :: "string option \<Rightarrow> bool" where
  "truthy_str x = (case x of None \<Rightarrow> False | Some v \<Rightarrow> v \<noteq> [])"

text \<open>Truth value of an optional integer: \<open>None\<close> and \<open>0\<close> are false.\<close>

definition truthy_int :: "int option \<Rightarrow> bool" where
  "truthy_int x = (case x of None \<Rightarrow> False | Some v \<Rightarrow> v \<noteq> 0)"

text \<open>Truth value of an optional list: \<open>None\<close> and the empty sequence are false.\<close>

definition truthy_list :: "'a list option \<Rightarrow> bool" where
  "truthy_list x = (case x of None \<Rightarrow> False | Some v \<Rightarrow> v \<noteq> [])"

text \<open>\<open>x or ''\<close> for an optional string.\<close>

definition or_empty :: "string option \<Rightarrow> string" where
  "or_empty x = (case x of None \<Rightarrow> [] | Some v \<Rightarrow> (if v = [] then [] else v))"

text \<open>The whitespace of an 8-bit \<open>str\<close>: space, \<open>\t \n \v \f \r\<close>.\<close>

definition is_space :: "char \<Rightarrow> bool" where
  "is_space c = (c = CHR '' '' \<or> c = CHR 0x09 \<or> c = CHR 0x0A \<or> c = CHR 0x0B
                 \<or> c = CHR 0x0C \<or> c = CHR 0x0D)"

definition lstrip :: "string \<Rightarrow> string" where
  "lstrip s = dropWhile is_space s"

definition rstrip :: "string \<Rightarrow> string" where
  "rstrip s = rev (dropWhile is_space (rev s))"

definition strip :: "string \<Rightarrow> string" where
  "strip s = rstrip (lstrip s)"

text \<open>\<open>s.split()\<close>: the maximal runs of non-whitespace characters, in order.\<close>

fun split_ws_acc :: "string \<Rightarrow> string \<Rightarrow> string list" where
  "split_ws_acc cur [] = (if cur = [] then [] else [rev cur])"
| "split_ws_acc cur (c # cs) =
     (if is_space c then (if cur = [] then split_ws_acc [] cs else rev cur # split_ws_acc [] cs)
      else split_ws_acc (c # cur) cs)"

definition split_ws :: "string \<Rightarrow> string list" where
  "split_ws s = split_ws_acc [] s"

text \<open>\<open>s.splitlines()\<close> of a \<open>str\<close>: lines end at \<open>\n\<close>, \<open>\r\<close> or \<open>\r\n\<close>; no empty last line.\<close>

fun splitlines_acc :: "string \<Rightarrow> string \<Rightarrow> string list" where
  "splitlines_acc cur [] = (if cur = [] then [] else [rev cur])"
| "splitlines_acc cur (c # cs) =
     (if c = CHR 0x0A then rev cur # splitlines_acc [] cs
      else if c = CHR 0x0D then
        (case cs of
           [] \<Rightarrow> [rev cur]
         | c' # cs' \<Rightarrow> (if c' = CHR 0x0A then rev cur # splitlines_acc [] cs'
                        else rev cur # splitlines_acc [] cs))
      else splitlines_acc (c # cur) cs)"

definition splitlines :: "string \<Rightarrow> string list" where
  "splitlines s = splitlines_acc [] s"

definition startswith :: "string \<Rightarrow> string \<Rightarrow> bool" where
  "startswith s p = (take (length p) s = p)"

text \<open>\<open>str(n)\<close> and \<open>'%d' % n\<close>: the decimal numeral of an integer.\<close>

definition digit_char :: "nat \<Rightarrow> char" where
  "digit_char k = ''0123456789'' ! k"

fun str_nat :: "nat \<Rightarrow> string" where
  "str_nat n = (if n < 10 then [digit_char n] else str_nat (n div 10) @ [digit_char (n mod 10)])"

definition str_int :: "int \<Rightarrow> string" where
  "str_int i = (if i < 0 then CHR ''-'' # str_nat (nat (- i)) else str_nat (nat i))"

text \<open>
  \<open>int(s)\<close> in base 10: surrounding whitespace is dropped, one sign is allowed, at least
  one digit must follow and nothing else; any other text raises \<open>ValueError\<close>.
\<close>

definition is_digit :: "char \<Rightarrow> bool" where
  "is_digit c = (CHR ''0'' \<le> c \<and> c \<le> CHR ''9'')"

definition digits_value :: "string \<Rightarrow> int" where
  "digits_value ds = foldl (\<lambda>acc c. 10 * acc + (int (of_char c) - int (of_char (CHR ''0'')))) 0 ds"

definition py_int :: "string \<Rightarrow> exn + int" where
  "py_int s =
     (let t = strip s;
          neg = (t \<noteq> [] \<and> hd t = CHR ''-'');
          ds = (if t \<noteq> [] \<and> (hd t = CHR ''-'' \<or> hd t = CHR ''+'') then tl t else t)
      in if ds \<noteq> [] \<and> list_all is_digit ds
         then Inr (if neg then - digits_value ds else digits_value ds)
         else Inl ValueError)"

section \<open>The parcel decoder\<close>

text \<open>
  \<open>re.match\<close> of the pattern
  \<^verbatim>\<open>  0x[0-9a-f]{8}\: ([0-9a-f ]{8}) ([0-9a-f ]{8}) ([0-9a-f ]{8}) ([0-9a-f ]{8}) '.{16}'\)?\<close>
  anchors at the start of the line only. Every piece but the optional closing parenthesis has
  a fixed width, so the match is read left to right: a literal is expected, or a fixed number
  of characters of a class is taken. The result is the four groups.
\<close>

definition expect :: "string \<Rightarrow> string \<Rightarrow> string option" where
  "expect lit s = (if take (length lit) s = lit then Some (drop (length lit) s) else None)"

definition take_class :: "(char \<Rightarrow> bool) \<Rightarrow> nat \<Rightarrow> string \<Rightarrow> (string \<times> string) option" where
  "take_class P n s =
     (if n \<le> length s \<and> list_all P (take n s) then Some (take n s, drop n s) else None)"

definition is_hex :: "char \<Rightarrow> bool" where
  "is_hex c = (c \<in> set ''0123456789abcdef'')"

definition is_hex_or_space :: "char \<Rightarrow> bool" where
  "is_hex_or_space c = (is_hex c \<or> c = CHR '' '')"

definition is_dot :: "char \<Rightarrow> bool" where
  "is_dot c = (c \<noteq> CHR 0x0A)"

definition parcel_match :: "string \<Rightarrow> (string \<times> string \<times> string \<times> string) option" where
  "parcel_match line = do {
     r \<leftarrow> expect ''  0x'' line;
     (_, r) \<leftarrow> take_class is_hex 8 r;
     r \<leftarrow> expect '': '' r;
     (g1, r) \<leftarrow> take_class is_hex_or_space 8 r;
     r \<leftarrow> expect '' '' r;
     (g2, r) \<leftarrow> take_class is_hex_or_space 8 r;
     r \<leftarrow> expect '' '' r;
     (g3, r) \<leftarrow> take_class is_hex_or_space 8 r;
     r \<leftarrow> expect '' '' r;
     (g4, r) \<leftarrow> take_class is_hex_or_space 8 r;
     r \<leftarrow> expect [CHR '' '', CHR 0x27] r;
     (_, r) \<leftarrow> take_class is_dot 16 r;
     _ \<leftarrow> expect [CHR 0x27] r;
     Some (g1, g2, g3, g4)
   }"

text \<open>The body of \<open>for i in xrange(1, 5)\<close> for one group: \<open>group[4:8]\<close>, then \<open>group[0:4]\<close>.\<close>

definition append_group :: "string list \<Rightarrow> string \<Rightarrow> string list" where
  "append_group out grp =
     (let out1 = (if take 4 (drop 4 grp) \<noteq> ''    '' then out @ [take 4 (drop 4 grp)] else out)
      in if take 4 grp \<noteq> ''    '' then out1 @ [take 4 grp] else out1)"

fun ParcelToList_loop :: "string list \<Rightarrow> string list \<Rightarrow> string list" where
  "ParcelToList_loop out [] = out"
| "ParcelToList_loop out (line # lines) =
     (case parcel_match line of
        None \<Rightarrow> out
      | Some (g1, g2, g3, g4) \<Rightarrow> ParcelToList_loop (foldl append_group out [g1, g2, g3, g4]) lines)"

definition ParcelToList :: "string list \<Rightarrow> string list" where
  "ParcelToList lines = ParcelToList_loop [] lines"

section \<open>The transport collaborator and the effects of a call\<close>

text \<open>
  The low level device (\<open>adb_commands_safe.AdbCommandsSafe\<close>, or a fake) is not part of this
  module; it is a parameter. Every call made to it, and every reading of the clock or draw
  from the random generator, is an event appended to a trace; what the call answers may
  depend on everything that happened before, so each answer is a function of the trace so far.
\<close>

datatype event =
    EShell string
  | EPullContent string
  | EPushContent string string
  | EStat string
  | ETime
  | ESleep
  | ERandom

type_synonym trace = "event list"

record device =
  port_path :: string
  is_valid :: bool
  IsShellOk :: "string \<Rightarrow> bool"
  dev_Shell :: "trace \<Rightarrow> string \<Rightarrow> string option \<times> int option"
  dev_PullContent :: "trace \<Rightarrow> string \<Rightarrow> string option"
  dev_PushContent :: "trace \<Rightarrow> string \<Rightarrow> string \<Rightarrow> bool"
  dev_Stat :: "trace \<Rightarrow> string \<Rightarrow> int option \<times> int option \<times> int option"
  time_time :: "trace \<Rightarrow> real"
  random_index :: "trace \<Rightarrow> nat"

text \<open>
  A computation takes the trace and returns its outcome, a raised exception (\<open>Inl\<close>) or a
  value (\<open>Inr\<close>), with the extended trace; \<open>None\<close> when it does not return.
\<close>

type_synonym 'a io = "trace \<Rightarrow> ((exn + 'a) \<times> trace) option"

definition ret :: "'a \<Rightarrow> 'a io" where
  "ret x = (\<lambda>s. Some (Inr x, s))"

definition raise :: "exn \<Rightarrow> 'a io" where
  "raise e = (\<lambda>s. Some (Inl e, s))"

definition diverge :: "'a io" where
  "diverge = (\<lambda>s. None)"

definition bnd :: "'a io \<Rightarrow> ('a \<Rightarrow> 'b io) \<Rightarrow> 'b io" where
  "bnd m f = (\<lambda>s. case m s of
                    None \<Rightarrow> None
                  | Some (Inl e, s') \<Rightarrow> Some (Inl e, s')
                  | Some (Inr x, s') \<Rightarrow> f x s')"

text \<open>\<open>try: body finally: fin\<close>: \<open>fin\<close> runs whatever \<open>body\<close> did; its own exception wins.\<close>

definition try_finally :: "'a io \<Rightarrow> 'b io \<Rightarrow> 'a io" where
  "try_finally body fin = (\<lambda>s. case body s of
                    None \<Rightarrow> None
                  | Some (r, s') \<Rightarrow>
                      (case fin s' of
                         None \<Rightarrow> None
                       | Some (Inl e, s'') \<Rightarrow> Some (Inl e, s'')
                       | Some (Inr _, s'') \<Rightarrow> Some (r, s'')))"

text \<open>The proxied low level methods of \<open>HighDevice\<close>.\<close>

definition PullContent :: "device \<Rightarrow> string \<Rightarrow> string option io" where
  "PullContent d path = (\<lambda>s. Some (Inr (dev_PullContent d s path), s @ [EPullContent path]))"

definition PushContent :: "device \<Rightarrow> string \<Rightarrow> string \<Rightarrow> bool io" where
  "PushContent d content path =
     (\<lambda>s. Some (Inr (dev_PushContent d s content path), s @ [EPushContent content path]))"

definition Stat :: "device \<Rightarrow> string \<Rightarrow> (int option \<times> int option \<times> int option) io" where
  "Stat d dest = (\<lambda>s. Some (Inr (dev_Stat d s dest), s @ [EStat dest]))"

definition device_Shell :: "device \<Rightarrow> string \<Rightarrow> (string option \<times> int option) io" where
  "device_Shell d cmd = (\<lambda>s. Some (Inr (dev_Shell d s cmd), s @ [EShell cmd]))"

definition time_now :: "device \<Rightarrow> real io" where
  "time_now d = (\<lambda>s. Some (Inr (time_time d s), s @ [ETime]))"

definition time_sleep :: "unit io" where
  "time_sleep = (\<lambda>s. Some (Inr (), s @ [ESleep]))"

definition random_choice :: "device \<Rightarrow> 'a list \<Rightarrow> 'a io" where
  "random_choice d xs = (\<lambda>s. Some (Inr (xs ! (random_index d s mod length xs)), s @ [ERandom]))"

section \<open>The per-device cache\<close>

text \<open>
  \<open>available_frequencies\<close> is \<open>None\<close>, the empty string or a list of integers in the source;
  the empty string is the empty list here: both are false, both raise \<open>IndexError\<close> at
  index 0, and no other use is made of an empty value.
\<close>

record DeviceCache =
  build_props :: "(string \<times> string) list option"
  external_storage_path :: "string option"
  has_su :: bool
  available_frequencies :: "int list option"
  available_governors :: "string list option"

definition KNOWN_CPU_SCALING_GOVERNOR_VALUES :: "string list" where
  "KNOWN_CPU_SCALING_GOVERNOR_VALUES =
     [''conservative'', ''interactive'', ''ondemand'', ''performance'', ''powersave'',
      ''userspace'']"

text \<open>
  \<open>_PerDeviceCache._per_device\<close>: a dictionary from port path to \<open>DeviceCache\<close>, kept as the
  list of its items; \<open>keys()\<close> is the list of the first components.
\<close>

type_synonym per_device = "(string \<times> DeviceCache) list"

definition cache_get :: "per_device \<Rightarrow> device \<Rightarrow> DeviceCache option" where
  "cache_get pd d = map_of pd (port_path d)"

definition cache_set :: "per_device \<Rightarrow> device \<Rightarrow> DeviceCache \<Rightarrow> per_device" where
  "cache_set pd d c = AList.update (port_path d) c pd"

text \<open>\<open>{d.port_path: d for d in devices}\<close>: a later device replaces an earlier one.\<close>

definition device_keys :: "device list \<Rightarrow> (string \<rightharpoonup> device)" where
  "device_keys devices = foldl (\<lambda>m d. m(port_path d \<mapsto> d)) Map.empty devices"

definition trim_step :: "(string \<rightharpoonup> device) \<Rightarrow> per_device \<Rightarrow> string \<Rightarrow> per_device" where
  "trim_step keys pd pp =
     (case keys pp of
        None \<Rightarrow> AList.delete pp pd
      | Some dev \<Rightarrow> (if \<not> is_valid dev then AList.delete pp pd else pd))"

definition trim :: "device list \<Rightarrow> per_device \<Rightarrow> per_device" where
  "trim devices pd = foldl (trim_step (device_keys devices)) pd (map fst pd)"

section \<open>Priming the cache\<close>

text \<open>
  The loop over the lines of \<open>/system/build.prop\<close>. \<open>line.split('=', 1)\<close> gives one part
  when the line has no \<open>=\<close>, and unpacking it into \<open>key, value\<close> raises \<open>ValueError\<close>.
\<close>

definition split_eq :: "string \<Rightarrow> (string \<times> string) option" where
  "split_eq line =
     (if CHR ''='' \<in> set line
      then Some (takeWhile (\<lambda>c. c \<noteq> CHR ''='') line, tl (dropWhile (\<lambda>c. c \<noteq> CHR ''='') line))
      else None)"

fun parse_build_prop :: "(string \<times> string) list \<Rightarrow> string list \<Rightarrow> exn + (string \<times> string) list" where
  "parse_build_prop properties [] = Inr properties"
| "parse_build_prop properties (line # lines) =
     (if startswith line ''#'' \<or> line = [] then parse_build_prop properties lines
      else if startswith line ''import '' then parse_build_prop properties lines
      else (case split_eq line of
              None \<Rightarrow> Inl ValueError
            | Some (key, v) \<Rightarrow> parse_build_prop (AList.update key v properties) lines))"

text \<open>\<open>int(i) for i in ...\<close>: the first item that is not an integer raises.\<close>

fun ints_of :: "string list \<Rightarrow> exn + int list" where
  "ints_of [] = Inr []"
| "ints_of (x # xs) =
     (case py_int x of
        Inl e \<Rightarrow> Inl e
      | Inr i \<Rightarrow> (case ints_of xs of Inl e \<Rightarrow> Inl e | Inr is \<Rightarrow> Inr (i # is)))"

definition lift :: "exn + 'a \<Rightarrow> 'a io" where
  "lift r = (case r of Inl e \<Rightarrow> raise e | Inr x \<Rightarrow> ret x)"

text \<open>\<open>all(i is not None for i in cache._asdict().itervalues())\<close>; \<open>has_su\<close> is a \<open>bool\<close>.\<close>

definition all_not_None :: "DeviceCache \<Rightarrow> bool" where
  "all_not_None cache =
     (build_props cache \<noteq> None \<and> external_storage_path cache \<noteq> None
      \<and> available_frequencies cache \<noteq> None \<and> available_governors cache \<noteq> None)"

text \<open>
  \<open>_InitCache(device)\<close> fills the five fields one after the other. The three blocks that
  read a file and parse it are written first: the build properties, the available governors
  and the available frequencies.
\<close>

definition InitCache_properties :: "device \<Rightarrow> (string \<times> string) list option io" where
  "InitCache_properties d =
     bnd (PullContent d ''/system/build.prop'') (\<lambda>out.
     if \<not> truthy_str out then ret None
     else lift (map_sum id Some (parse_build_prop [] (splitlines (or_empty out)))))"

definition InitCache_governors :: "device \<Rightarrow> string list io" where
  "InitCache_governors d =
     bnd (PullContent d ''/sys/devices/system/cpu/cpu0/cpufreq/scaling_available_governors'')
       (\<lambda>out.
     if truthy_str out
     then (if set (sort (split_ws (or_empty out))) \<subseteq> set KNOWN_CPU_SCALING_GOVERNOR_VALUES
           then ret (sort (split_ws (or_empty out)))
           else raise AssertionError)
     else ret KNOWN_CPU_SCALING_GOVERNOR_VALUES)"

definition InitCache_frequencies :: "device \<Rightarrow> int list option io" where
  "InitCache_frequencies d =
     bnd (PullContent d ''/sys/devices/system/cpu/cpu0/cpufreq/scaling_available_frequencies'')
       (\<lambda>available_frequencies.
     if truthy_str available_frequencies
     then lift (map_sum id (\<lambda>is. Some (sort is))
                  (ints_of (split_ws (strip (or_empty available_frequencies)))))
     else
       bnd (PullContent d ''/sys/devices/system/cpu/cpu0/cpufreq/cpuinfo_min_freq'')
         (\<lambda>cpuinfo_min_freq.
       bnd (PullContent d ''/sys/devices/system/cpu/cpu0/cpufreq/cpuinfo_max_freq'')
         (\<lambda>cpuinfo_max_freq.
       if truthy_str cpuinfo_min_freq \<and> truthy_str cpuinfo_max_freq
       then bnd (lift (py_int (or_empty cpuinfo_min_freq))) (\<lambda>lo.
            bnd (lift (py_int (or_empty cpuinfo_max_freq))) (\<lambda>hi. ret (Some [lo, hi])))
       else ret (map_option (\<lambda>_. []) available_frequencies))))"

text \<open>
  The global \<open>_PER_DEVICE_CACHE\<close> is passed in and returned with the result; when an
  exception is raised the cache has not been written.
\<close>

definition InitCache :: "device \<Rightarrow> per_device \<Rightarrow> (DeviceCache \<times> per_device) io" where
  "InitCache d pd =
     (case cache_get pd d of
        Some cache \<Rightarrow> ret (cache, pd)
      | None \<Rightarrow>
          bnd (device_Shell d ''echo -n $EXTERNAL_STORAGE'') (\<lambda>(out, exitcode).
          bnd (ret (if truthy_int exitcode then None else out)) (\<lambda>external_storage_path.
          bnd (InitCache_properties d) (\<lambda>properties.
          bnd (Stat d ''/system/xbin/su'') (\<lambda>(mode, _, _).
          bnd (ret (truthy_int mode)) (\<lambda>has_su.
          bnd (InitCache_governors d) (\<lambda>available_governors.
          bnd (InitCache_frequencies d) (\<lambda>available_frequencies.
          bnd (ret \<lparr> build_props = properties, external_storage_path = external_storage_path,
                     has_su = has_su, available_frequencies = available_frequencies,
                     available_governors = Some available_governors \<rparr>) (\<lambda>cache.
          if all_not_None cache then ret (cache, cache_set pd d cache)
          else ret (cache, pd))))))))))"

section \<open>Temporary files and the wrapped shell\<close>

definition ascii_letters :: string where
  "ascii_letters = ''abcdefghijklmnopqrstuvwxyzABCDEFGHIJKLMNOPQRSTUVWXYZ''"

definition digits :: string where
  "digits = ''0123456789''"

text \<open>\<open>pipes.quote\<close> of the standard library.\<close>

definition pipes_quote :: "string \<Rightarrow> string" where
  "pipes_quote file =
     (if list_all (\<lambda>c. c \<in> set (ascii_letters @ digits @ ''@%_-+=:,./'')) file
      then (if file = [] then [CHR 0x27, CHR 0x27] else file)
      else [CHR 0x27]
           @ concat (map (\<lambda>c. if c = CHR 0x27
                               then [CHR 0x27, CHR 0x22, CHR 0x27, CHR 0x22, CHR 0x27]
                               else [c]) file)
           @ [CHR 0x27])"

text \<open>\<open>''.join(random.choice(choices) for _ in xrange(k))\<close>.\<close>

primrec random_chars :: "device \<Rightarrow> nat \<Rightarrow> string io" where
  "random_chars d 0 = ret []"
| "random_chars d (Suc k) =
     bnd (random_choice d (ascii_letters @ digits)) (\<lambda>c.
     bnd (random_chars d k) (\<lambda>cs. ret (c # cs)))"

text \<open>
  \<open>Mkstemp\<close>: the loop \<open>for _ in xrange(5)\<close> with the number of tries left; falling out of
  the loop returns \<open>None\<close>.
\<close>

primrec Mkstemp_loop :: "device \<Rightarrow> string \<Rightarrow> string \<Rightarrow> string \<Rightarrow> nat \<Rightarrow> string option io" where
  "Mkstemp_loop d content name_prefix name_suffix 0 = ret None"
| "Mkstemp_loop d content name_prefix name_suffix (Suc k) =
     bnd (random_chars d 5) (\<lambda>r.
     bnd (ret (''/data/local/tmp/'' @ name_prefix @ r @ name_suffix)) (\<lambda>name.
     bnd (Stat d name) (\<lambda>(mode, _, _).
     if truthy_int mode then Mkstemp_loop d content name_prefix name_suffix k
     else bnd (PushContent d content name) (\<lambda>pushed.
          if pushed then ret (Some name)
          else Mkstemp_loop d content name_prefix name_suffix k))))"

definition Mkstemp :: "device \<Rightarrow> string \<Rightarrow> string \<Rightarrow> string \<Rightarrow> string option io" where
  "Mkstemp d content name_prefix name_suffix = Mkstemp_loop d content name_prefix name_suffix 5"

text \<open>
  \<open>HighDevice.Shell\<close> returns what \<open>WrappedShell\<close> returns: a pair, or \<open>False\<close>. Unpacking
  \<open>False\<close> into two names raises \<open>TypeError\<close>.
\<close>

datatype shell_ret = RetFalse | RetTuple "string option" "int option"

definition unpack :: "shell_ret \<Rightarrow> (string option \<times> int option) io" where
  "unpack r = (case r of RetFalse \<Rightarrow> raise TypeError | RetTuple out code \<Rightarrow> ret (out, code))"

text \<open>
  \<open>WrappedShell\<close> calls \<open>self.Shell\<close>, which calls \<open>WrappedShell\<close> for a command the device
  does not take directly. The body is written over the \<open>self.Shell\<close> it calls, and the knot is
  tied in \<open>Shell\<close>, whose first argument bounds the nesting: a command that is still not
  taken at depth 0 does not return.
\<close>

definition WrappedShell_body :: "device \<Rightarrow> (string \<Rightarrow> shell_ret io) \<Rightarrow> string list \<Rightarrow> shell_ret io" where
  "WrappedShell_body d self_Shell commands =
     bnd (ret (concat (map (\<lambda>l. l @ [CHR 0x0A]) commands))) (\<lambda>content.
     bnd (Mkstemp d content ''python-adb'' ''.sh'') (\<lambda>script.
     if \<not> truthy_str script then ret RetFalse
     else
       try_finally
         (bnd (Mkstemp d [] ''python-adb'' ''.txt'') (\<lambda>outfile.
          if \<not> truthy_str outfile then ret RetFalse
          else
            try_finally
              (bnd (self_Shell (''sh '' @ or_empty script @ '' &> '' @ or_empty outfile)) (\<lambda>r.
               bnd (unpack r) (\<lambda>(_, exit_code).
               bnd (PullContent d (or_empty outfile)) (\<lambda>out.
               ret (RetTuple out exit_code)))))
              (self_Shell (''rm '' @ or_empty outfile))))
         (self_Shell (''rm '' @ or_empty script))))"

primrec Shell :: "device \<Rightarrow> nat \<Rightarrow> string \<Rightarrow> shell_ret io" where
  "Shell d 0 =
     (\<lambda>cmd. if IsShellOk d cmd
            then bnd (device_Shell d cmd) (\<lambda>(out, code). ret (RetTuple out code))
            else diverge)"
| "Shell d (Suc n) =
     (\<lambda>cmd. if IsShellOk d cmd
            then bnd (device_Shell d cmd) (\<lambda>(out, code). ret (RetTuple out code))
            else WrappedShell_body d (Shell d n) [cmd])"

definition WrappedShell :: "device \<Rightarrow> nat \<Rightarrow> string list \<Rightarrow> shell_ret io" where
  "WrappedShell d n commands = WrappedShell_body d (Shell d n) commands"

definition GetProp :: "device \<Rightarrow> nat \<Rightarrow> string \<Rightarrow> string option io" where
  "GetProp d n prop =
     bnd (Shell d n (''getprop '' @ pipes_quote prop)) (\<lambda>r.
     bnd (unpack r) (\<lambda>(out, exit_code).
     if exit_code \<noteq> Some 0 then ret None
     else (case out of None \<Rightarrow> raise AttributeError | Some v \<Rightarrow> ret (Some (rstrip v)))))"

section \<open>CPU scaling governor and speed\<close>

text \<open>
  \<open>SetCPUScalingGovernor\<close> calls \<open>SetCPUSpeed\<close> for an unsupported \<open>powersave\<close> only, and
  \<open>SetCPUSpeed\<close> calls \<open>SetCPUScalingGovernor('userspace')\<close>. \<open>_LOG\<close> is set to level
  \<open>ERROR\<close>, so the \<open>warning\<close> and \<open>info\<close> records are dropped and only the evaluation of
  their arguments is an effect. \<open>n\<close> bounds the nesting of wrapped shells.

  The three branches taken when the governor is not available are written as guards over
  the same condition; the substituted governor is bound before the control file is read.
  The second \<open>assert governor in KNOWN_CPU_SCALING_GOVERNOR_VALUES\<close> cannot fail, since the
  substitutes are known governors. \<open>assert isinstance(speed, int)\<close> holds by the type of
  \<open>speed\<close>. Indexing \<open>available_frequencies[0]\<close> raises \<open>TypeError\<close> on \<open>None\<close> and
  \<open>IndexError\<close> on an empty value.
\<close>

function SetCPUScalingGovernor :: "device \<Rightarrow> DeviceCache \<Rightarrow> nat \<Rightarrow> string \<Rightarrow> bool io"
  and SetCPUSpeed :: "device \<Rightarrow> DeviceCache \<Rightarrow> nat \<Rightarrow> int \<Rightarrow> bool io" where
  "SetCPUScalingGovernor d c n governor =
     (if governor \<notin> set KNOWN_CPU_SCALING_GOVERNOR_VALUES then raise AssertionError
      else if \<not> truthy_list (available_governors c) then ret False
      else if governor \<notin> set (the (available_governors c)) \<and> governor = ''powersave'' then
        (case available_frequencies c of
           None \<Rightarrow> raise TypeError
         | Some [] \<Rightarrow> raise IndexError
         | Some (f # fs) \<Rightarrow> SetCPUSpeed d c n f)
      else if governor \<notin> set (the (available_governors c)) \<and> governor \<noteq> ''ondemand''
              \<and> governor \<noteq> ''interactive'' then ret False
      else
        bnd (ret (if governor \<notin> set (the (available_governors c))
                  then (if governor = ''ondemand'' then ''interactive'' else ''ondemand'')
                  else governor)) (\<lambda>governor.
        bnd (ret ''/sys/devices/system/cpu/cpu0/cpufreq/scaling_governor'') (\<lambda>path.
        bnd (PullContent d path) (\<lambda>prev.
        if truthy_str prev \<and> strip (or_empty prev) = governor then ret True
        else
          bnd (PushContent d (governor @ [CHR 0x0A]) path) (\<lambda>pushed.
          bnd (if \<not> pushed
               then bnd (Shell d n (''echo '' @ [CHR 0x22] @ governor @ [CHR 0x22] @ '' > '' @ path))
                      (\<lambda>r.
                    bnd (unpack r) (\<lambda>(_, exit_code). ret (exit_code \<noteq> Some 0)))
               else ret False) (\<lambda>write_failed.
          if write_failed then ret False
          else
            bnd (PullContent d path) (\<lambda>newval.
            if \<not> (strip (or_empty newval) = governor) then ret False
            else ret True)))))))"
| "SetCPUSpeed d c n speed =
     (if \<not> (10000 \<le> speed \<and> speed \<le> 10000000) then raise AssertionError
      else if \<not> truthy_list (available_frequencies c) then ret False
      else if speed \<notin> set (the (available_frequencies c)) then raise AssertionError
      else
        bnd (SetCPUScalingGovernor d c n ''userspace'') (\<lambda>success.
        bnd (PushContent d (str_int speed @ [CHR 0x0A])
               ''/sys/devices/system/cpu/cpu0/cpufreq/scaling_setspeed'') (\<lambda>pushed.
        if \<not> pushed then ret False
        else
          bnd (PullContent d ''/sys/devices/system/cpu/cpu0/cpufreq/scaling_setspeed'') (\<lambda>val.
          ret (success \<and> strip (or_empty val) = str_int speed)))))"
  by pat_completeness auto
termination
  by (relation "measure (\<lambda>x. case x of
         Inl (d, c, n, governor) \<Rightarrow> (if governor = ''powersave'' then 2 else 0)
       | Inr (d, c, n, speed) \<Rightarrow> 1)") auto

section \<open>Waiting for the device\<close>

text \<open>
  The polling loops may run for ever; \<open>k\<close> is the number of iterations left, and a loop that
  has none left does not return.
\<close>

primrec WaitForDevice_loop :: "device \<Rightarrow> string \<Rightarrow> real \<Rightarrow> real \<Rightarrow> nat \<Rightarrow> bool io" where
  "WaitForDevice_loop d path timeout start 0 = diverge"
| "WaitForDevice_loop d path timeout start (Suc k) =
     bnd (time_now d) (\<lambda>now.
     if now - start > timeout then ret False
     else
       bnd (Stat d path) (\<lambda>(mode, _, _).
       if mode \<noteq> None then ret True
       else bnd time_sleep (\<lambda>_. WaitForDevice_loop d path timeout start k)))"

definition WaitForDevice :: "device \<Rightarrow> DeviceCache \<Rightarrow> nat \<Rightarrow> real \<Rightarrow> bool io" where
  "WaitForDevice d c n timeout =
     (if \<not> truthy_str (external_storage_path c) then ret False
      else
        bnd (time_now d) (\<lambda>start.
        WaitForDevice_loop d (or_empty (external_storage_path c)) timeout start n))"

text \<open>The second loop: \<open>True\<close> when it is left by \<open>break\<close>, \<open>False\<close> when it returns \<open>False\<close>.\<close>

primrec bootanim_loop :: "device \<Rightarrow> nat \<Rightarrow> real \<Rightarrow> real \<Rightarrow> nat \<Rightarrow> bool io" where
  "bootanim_loop d n timeout start 0 = diverge"
| "bootanim_loop d n timeout start (Suc k) =
     bnd (time_now d) (\<lambda>now.
     if now - start > timeout
     then bnd (GetProp d n ''init.svc.bootanim'') (\<lambda>_. ret False)
     else
       bnd (GetProp d n ''init.svc.bootanim'') (\<lambda>v.
       if v = Some ''stopped'' then ret True
       else bnd time_sleep (\<lambda>_. bootanim_loop d n timeout start k)))"

text \<open>The third loop, with the same convention.\<close>

primrec pm_loop :: "device \<Rightarrow> nat \<Rightarrow> real \<Rightarrow> real \<Rightarrow> nat \<Rightarrow> bool io" where
  "pm_loop d n timeout start 0 = diverge"
| "pm_loop d n timeout start (Suc k) =
     bnd (time_now d) (\<lambda>now.
     if now - start > timeout then ret False
     else
       bnd (Shell d n ''pm path'') (\<lambda>r.
       bnd (unpack r) (\<lambda>(out, _).
       if out = Some (''Error: no package specified'' @ [CHR 0x0A]) then ret True
       else if out \<noteq> Some (''Error: Could not access the Package Manager.  Is the system running?''
                            @ [CHR 0x0A])
       then raise AssertionError
       else bnd time_sleep (\<lambda>_. pm_loop d n timeout start k))))"

definition WaitUntilFullyBooted :: "device \<Rightarrow> DeviceCache \<Rightarrow> nat \<Rightarrow> real \<Rightarrow> bool io" where
  "WaitUntilFullyBooted d c n timeout =
     bnd (time_now d) (\<lambda>start.
     bnd (WaitForDevice d c n timeout) (\<lambda>responsive.
     if \<not> responsive then ret False
     else
       bnd (bootanim_loop d n timeout start n) (\<lambda>stopped.
       if \<not> stopped then ret False
       else
         bnd (pm_loop d n timeout start n) (\<lambda>up.
         if \<not> up then ret False
         else ret True))))"

section \<open>The specification's reading of the decoder and of trimming\<close>

text \<open>
  The decoder as the specification words it: the lines up to the first one that is not a
  record are decoded, each column gives its low half then its high half, and a half that is
  all spaces is left out.
\<close>

definition is_record :: "string \<Rightarrow> bool" where
  "is_record line = (parcel_match line \<noteq> None)"

definition blank :: "string \<Rightarrow> bool" where
  "blank h = list_all (\<lambda>c. c = CHR '' '') h"

definition column_units :: "string \<Rightarrow> string list" where
  "column_units col = filter (\<lambda>h. \<not> blank h) [take 4 (drop 4 col), take 4 col]"

definition line_units :: "string \<Rightarrow> string list" where
  "line_units line =
     (case parcel_match line of
        None \<Rightarrow> []
      | Some (g1, g2, g3, g4) \<Rightarrow> concat (map column_units [g1, g2, g3, g4]))"

definition decode_spec :: "string list \<Rightarrow> string list" where
  "decode_spec lines = concat (map line_units (takeWhile is_record lines))"

text \<open>
  A cached entry is stale, in the specification's words, when its port path is not among the
  live devices or a live device of that port path is not valid.
\<close>

definition stale :: "device list \<Rightarrow> string \<Rightarrow> bool" where
  "stale devices pp =
     (pp \<notin> port_path ` set devices
      \<or> (\<exists>dev \<in> set devices. port_path dev = pp \<and> \<not> is_valid dev))"

text \<open>What the loop of \<open>trim\<close> tests for one key.\<close>

definition dropped :: "(string \<rightharpoonup> device) \<Rightarrow> string \<Rightarrow> bool" where
  "dropped keys pp = (case keys pp of None \<Rightarrow> True | Some dev \<Rightarrow> \<not> is_valid dev)"

section \<open>Properties of computations\<close>

text \<open>A computation emits \<open>P\<close> when every event it appends to the trace satisfies \<open>P\<close>.\<close>

definition emits :: "(event \<Rightarrow> bool) \<Rightarrow> 'a io \<Rightarrow> bool" where
  "emits P m = (\<forall>s r s'. m s = Some (r, s') \<longrightarrow> (\<exists>es. s' = s @ es \<and> list_all P es))"

text \<open>A computation is total when it returns, with a value or an exception, from every trace.\<close>

definition total :: "'a io \<Rightarrow> bool" where
  "total m = (\<forall>s. m s \<noteq> None)"

section \<open>Example inputs\<close>

text \<open>Two lines of a \<open>service call\<close> answer; the second one ends the parcel.\<close>

definition valid1 :: string where
  "valid1 = ''  0x00000000: 00000000 0000000f 00350033 00340032 '' @ [CHR 0x27]
            @ ''........3.5.2.4.'' @ [CHR 0x27]"

definition valid2 :: string where
  "valid2 = ''  0x00000020: 00310039     0032                   '' @ [CHR 0x27]
            @ ''9.1.2...        '' @ [CHR 0x27] @ '')''"

text \<open>
  A fake device: \<open>files\<close> gives the content of each path, every push succeeds, every shell
  command is taken directly and exits with \<open>code\<close>, no path can be stat'ed, each event takes
  one second, and the random draws walk through the choices.
\<close>

definition fake_device :: "string \<Rightarrow> bool \<Rightarrow> (string \<Rightarrow> string option) \<Rightarrow> int \<Rightarrow> device" where
  "fake_device pp valid files code =
     \<lparr> port_path = pp, is_valid = valid, IsShellOk = (\<lambda>_. True),
       dev_Shell = (\<lambda>s cmd. (Some ''/sdcard'', Some code)),
       dev_PullContent = (\<lambda>s p. files p),
       dev_PushContent = (\<lambda>s content p. True),
       dev_Stat = (\<lambda>s p. (None, None, None)),
       time_time = (\<lambda>s. real (length s)),
       random_index = (\<lambda>s. length s) \<rparr>"

definition no_files :: "string \<Rightarrow> string option" where
  "no_files p = None"

definition governor_file :: "string \<Rightarrow> string \<Rightarrow> string option" where
  "governor_file content p =
     (if p = ''/sys/devices/system/cpu/cpu0/cpufreq/scaling_governor'' then Some content else None)"

text \<open>The files of a device with a build property, two frequencies and the given governors.\<close>

definition device_files :: "string option \<Rightarrow> string \<Rightarrow> string option" where
  "device_files governors p =
     (if p = ''/system/build.prop'' then Some (''ro.product.model=Nexus 5'' @ [CHR 0x0A])
      else if p = ''/sys/devices/system/cpu/cpu0/cpufreq/scaling_available_frequencies''
      then Some (''300000 1000000'' @ [CHR 0x0A])
      else if p = ''/sys/devices/system/cpu/cpu0/cpufreq/scaling_available_governors''
      then governors
      else None)"

definition cache_of :: "int list option \<Rightarrow> string list option \<Rightarrow> DeviceCache" where
  "cache_of freqs governors =
     \<lparr> build_props = Some [], external_storage_path = Some ''/sdcard'', has_su = False,
       available_frequencies = freqs, available_governors = governors \<rparr>"

text \<open>What priming gives for a device none of whose files can be read, and for a device
  with the files above and the governors \<open>ondemand interactive\<close>.\<close>

definition bare_cache :: DeviceCache where
  "bare_cache =
     \<lparr> build_props = None, external_storage_path = Some ''/sdcard'', has_su = False,
       available_frequencies = None,
       available_governors = Some KNOWN_CPU_SCALING_GOVERNOR_VALUES \<rparr>"

definition nexus_cache :: DeviceCache where
  "nexus_cache =
     \<lparr> build_props = Some [(''ro.product.model'', ''Nexus 5'')],
       external_storage_path = Some ''/sdcard'', has_su = False,
       available_frequencies = Some [300000, 1000000],
       available_governors = Some [''interactive'', ''ondemand''] \<rparr>"

definition bare_trace :: trace where
  "bare_trace =
     [EShell ''echo -n $EXTERNAL_STORAGE'', EPullContent ''/system/build.prop'',
      EStat ''/system/xbin/su'',
      EPullContent ''/sys/devices/system/cpu/cpu0/cpufreq/scaling_available_governors'',
      EPullContent ''/sys/devices/system/cpu/cpu0/cpufreq/scaling_available_frequencies'',
      EPullContent ''/sys/devices/system/cpu/cpu0/cpufreq/cpuinfo_min_freq'',
      EPullContent ''/sys/devices/system/cpu/cpu0/cpufreq/cpuinfo_max_freq'']"

definition nexus_trace :: trace where
  "nexus_trace =
     [EShell ''echo -n $EXTERNAL_STORAGE'', EPullContent ''/system/build.prop'',
      EStat ''/system/xbin/su'',
      EPullContent ''/sys/devices/system/cpu/cpu0/cpufreq/scaling_available_governors'',
      EPullContent ''/sys/devices/system/cpu/cpu0/cpufreq/scaling_available_frequencies'']"

section \<open>Reading a trace\<close>

text \<open>The shell commands sent to the device, in order.\<close>

fun shell_cmds :: "trace \<Rightarrow> string list" where
  "shell_cmds [] = []"
| "shell_cmds (EShell cmd # es) = cmd # shell_cmds es"
| "shell_cmds (e # es) = shell_cmds es"

definition is_shell :: "event \<Rightarrow> bool" where
  "is_shell e = (case e of EShell cmd \<Rightarrow> True | _ \<Rightarrow> False)"

text \<open>The events of polling the external storage: reading the clock, \<open>Stat\<close>, sleeping.\<close>

definition poll_event :: "string \<Rightarrow> event \<Rightarrow> bool" where
  "poll_event path e = (e = ETime \<or> e = ESleep \<or> e = EStat path)"

text \<open>The number of \<open>time.sleep(0.1)\<close> calls in a trace.\<close>

definition sleeps :: "trace \<Rightarrow> nat" where
  "sleeps es = length (filter (\<lambda>e. e = ESleep) es)"

text \<open>
  The two temporary files that the fake device gives to \<open>WrappedShell(['ls'])\<close> from the
  empty trace, and the traces after the first and the second allocation.
\<close>

definition example_script :: string where
  "example_script = ''/data/local/tmp/python-adbabcde.sh''"

definition example_outfile :: string where
  "example_outfile = ''/data/local/tmp/python-adbhijkl.txt''"

definition example_trace1 :: trace where
  "example_trace1 =
     [ERandom, ERandom, ERandom, ERandom, ERandom, EStat example_script,
      EPushContent (''ls'' @ [CHR 0x0A]) example_script]"

definition example_trace2 :: trace where
  "example_trace2 =
     example_trace1 @ [ERandom, ERandom, ERandom, ERandom, ERandom, EStat example_outfile,
                       EPushContent [] example_outfile]"

section \<open>The wrapped shell after the script has run\<close>

text \<open>
  What the inner \<open>try\<close> block of \<open>WrappedShell\<close> comes to once \<open>self.Shell\<close> has run the script
  with outcome \<open>r\<close> in trace \<open>t\<close>: an exception of the call goes on, \<open>False\<close> cannot be
  unpacked and raises \<open>TypeError\<close>, and a pair has its exit code kept while the output file
  is pulled.
\<close>

definition after_script ::
  "device \<Rightarrow> string \<Rightarrow> exn + shell_ret \<Rightarrow> trace \<Rightarrow> (exn + shell_ret) \<times> trace" where
  "after_script d outfile r t =
     (case r of
        Inl e \<Rightarrow> (Inl e, t)
      | Inr RetFalse \<Rightarrow> (Inl TypeError, t)
      | Inr (RetTuple out exit_code) \<Rightarrow>
          (Inr (RetTuple (dev_PullContent d t outfile) exit_code), t @ [EPullContent outfile]))"

text \<open>
  A device that does not take \<open>sh\<close> commands directly and whose pushes fail once two files
  have been written: the nested wrapped shell cannot allocate its script and returns \<open>False\<close>.
\<close>

definition flaky_device :: device where
  "flaky_device =
     \<lparr> port_path = ''usb1'', is_valid = True, IsShellOk = (\<lambda>cmd. take 3 cmd \<noteq> ''sh ''),
       dev_Shell = (\<lambda>s cmd. (Some [], Some 0)),
       dev_PullContent = (\<lambda>s p. None),
       dev_PushContent = (\<lambda>s content p. length s < 14),
       dev_Stat = (\<lambda>s p. (None, None, None)),
       time_time = (\<lambda>s. real (length s)),
       random_index = (\<lambda>s. length s) \<rparr>"

text \<open>The trace after that nested, failed run of the example script.\<close>

definition flaky_trace :: trace where
  "flaky_trace =
     example_trace2
     @ concat (map (\<lambda>r. [ERandom, ERandom, ERandom, ERandom, ERandom,
                          EStat (''/data/local/tmp/python-adb'' @ r @ ''.sh''),
                          EPushContent
                            (''sh '' @ example_script @ '' &> '' @ example_outfile @ [CHR 0x0A])
                            (''/data/local/tmp/python-adb'' @ r @ ''.sh'')])
                 [''opqrs'', ''vwxyz'', ''CDEFG'', ''JKLMN'', ''QRSTU''])"

text \<open>
  The snapshot stored for a device whose \<open>Stat\<close> of \<open>/system/xbin/su\<close> and whose read of the
  available governors both fail.
\<close>

definition degraded_cache :: DeviceCache where
  "degraded_cache =
     \<lparr> build_props = Some [(''ro.product.model'', ''Nexus 5'')],
       external_storage_path = Some ''/sdcard'', has_su = False,
       available_frequencies = Some [300000, 1000000],
       available_governors = Some KNOWN_CPU_SCALING_GOVERNOR_VALUES \<rparr>"

section \<open>The parcel decoder stops at the first line that is not a record\<close>

lemma take_class_length: "take_class P n s = Some (g, r) \<Longrightarrow> length g = n"
  by (auto simp: take_class_def split: if_splits)

lemma option_bindE:
  "Option.bind m f = Some y \<Longrightarrow> (\<And>x. m = Some x \<Longrightarrow> f x = Some y \<Longrightarrow> P) \<Longrightarrow> P"
  by (cases m) auto

lemma parcel_match_lengths:
  assumes "parcel_match line = Some (g1, g2, g3, g4)"
  shows "length g1 = 8 \<and> length g2 = 8 \<and> length g3 = 8 \<and> length g4 = 8"
  using assms unfolding parcel_match_def
  by (auto elim!: option_bindE dest: take_class_length split: prod.splits)

lemma blank4: "length h = 4 \<Longrightarrow> blank h = (h = ''    '')"
  by (auto simp: eval_nat_numeral length_Suc_conv blank_def)

lemma append_group_units: "length g = 8 \<Longrightarrow> append_group out g = out @ column_units g"
  by (simp add: append_group_def column_units_def blank4 Let_def)

lemma ParcelToList_loop_spec: "ParcelToList_loop out lines = out @ decode_spec lines"
proof (induction lines arbitrary: out)
  case Nil
  then show ?case by (simp add: decode_spec_def)
next
  case (Cons line lines)
  show ?case
  proof (cases "parcel_match line")
    case None
    then show ?thesis by (simp add: decode_spec_def is_record_def)
  next
    case (Some gs)
    obtain g1 g2 g3 g4 where gs: "gs = (g1, g2, g3, g4)" by (cases gs) auto
    from Some gs have L: "length g1 = 8" "length g2 = 8" "length g3 = 8" "length g4 = 8"
      using parcel_match_lengths by blast+
    have "decode_spec (line # lines) = line_units line @ decode_spec lines"
      using Some by (simp add: decode_spec_def is_record_def)
    moreover have "line_units line
        = column_units g1 @ column_units g2 @ column_units g3 @ column_units g4"
      using Some gs by (simp add: line_units_def)
    ultimately show ?thesis
      using Some gs L Cons.IH by (simp add: append_group_units)
  qed
qed

lemma decode_spec_stops:
  "list_all is_record pre \<Longrightarrow> \<not> is_record g
   \<Longrightarrow> decode_spec (pre @ g # rest) = concat (map line_units pre)"
  by (simp add: decode_spec_def takeWhile_append2 list_all_iff)

text \<open>
  Claim C5. \<open>_ParcelToList\<close> decodes the lines in order up to the first line that does not
  match the record pattern and ignores every later line: whatever follows a non-matching line
  \<open>g\<close>, the result is what the matching lines before it give. Each matching line gives, for
  its four columns from left to right, the low half (characters 4 to 7) and then the high
  half (characters 0 to 3), without the halves that are all spaces.
\<close>

theorem ParcelToList_scan:
  "ParcelToList lines = concat (map line_units (takeWhile is_record lines))
   \<and> (list_all is_record pre \<and> \<not> is_record g
        \<longrightarrow> ParcelToList (pre @ g # rest) = concat (map line_units pre))"
  by (simp add: ParcelToList_def ParcelToList_loop_spec decode_spec_stops)
    (simp add: decode_spec_def)

theorem ParcelToList_scan_witness:
  "list_all is_record [valid1, valid2] \<and> \<not> is_record ''garbage''
   \<and> ParcelToList ([valid1, valid2] @ ''garbage'' # [valid1])
       = [''0000'', ''0000'', ''000f'', ''0000'', ''0033'', ''0035'', ''0032'', ''0034'',
          ''0039'', ''0031'', ''0032'']"
proof -
  have h: "list_all is_record [valid1, valid2] \<and> \<not> is_record ''garbage''"
    by code_simp
  have v: "concat (map line_units [valid1, valid2])
       = [''0000'', ''0000'', ''000f'', ''0000'', ''0033'', ''0035'', ''0032'', ''0034'',
          ''0039'', ''0031'', ''0032'']"
    by code_simp
  from ParcelToList_scan [of "[]" "[valid1, valid2]" "''garbage''" "[valid1]"] h v
  show ?thesis by simp
qed

section \<open>Trimming the cache\<close>

lemma device_keys_Nil: "device_keys [] = Map.empty"
  by (simp add: device_keys_def)

lemma device_keys_snoc: "device_keys (ds @ [d]) = (device_keys ds)(port_path d \<mapsto> d)"
  by (simp add: device_keys_def)

lemma device_keys_None: "(device_keys devices k = None) = (k \<notin> port_path ` set devices)"
  by (induction devices rule: rev_induct) (auto simp: device_keys_snoc device_keys_Nil)

lemma device_keys_Some:
  "device_keys devices k = Some dev \<Longrightarrow> dev \<in> set devices \<and> port_path dev = k"
  by (induction devices rule: rev_induct)
    (auto simp: device_keys_snoc device_keys_Nil split: if_splits)

lemma device_keys_distinct:
  "distinct (map port_path devices) \<Longrightarrow> dev \<in> set devices
   \<Longrightarrow> device_keys devices (port_path dev) = Some dev"
proof (induction devices rule: rev_induct)
  case Nil
  then show ?case by simp
next
  case (snoc x xs)
  show ?case
  proof (cases "dev = x")
    case True
    then show ?thesis by (simp add: device_keys_snoc)
  next
    case False
    with snoc.prems have in_xs: "dev \<in> set xs" by simp
    have "port_path x \<notin> port_path ` set xs" using snoc.prems(1) by simp
    with in_xs have "port_path dev \<noteq> port_path x" by (metis imageI)
    moreover have "device_keys xs (port_path dev) = Some dev"
      using snoc.IH snoc.prems in_xs by simp
    ultimately show ?thesis by (simp add: device_keys_snoc)
  qed
qed

lemma map_of_trim_step:
  "map_of (trim_step keys pd pp) k = (if k = pp \<and> dropped keys pp then None else map_of pd k)"
  by (auto simp: trim_step_def dropped_def delete_conv split: option.splits)

lemma map_of_foldl_trim_step:
  "map_of (foldl (trim_step keys) pd pps) k =
     (if k \<in> set pps \<and> dropped keys k then None else map_of pd k)"
  by (induction pps arbitrary: pd) (auto simp: map_of_trim_step)

text \<open>Whatever the live devices are, the last device of a port path decides.\<close>

lemma map_of_trim:
  "map_of (trim devices pd) k = (if dropped (device_keys devices) k then None else map_of pd k)"
proof (cases "k \<in> fst ` set pd")
  case True
  then show ?thesis by (simp add: trim_def map_of_foldl_trim_step)
next
  case False
  then have "map_of pd k = None" by (simp add: map_of_eq_None_iff)
  then show ?thesis by (simp add: trim_def map_of_foldl_trim_step)
qed

lemma dropped_stale:
  assumes "distinct (map port_path devices)"
  shows "dropped (device_keys devices) pp = stale devices pp"
proof (cases "device_keys devices pp")
  case None
  moreover from None have "pp \<notin> port_path ` set devices" by (simp add: device_keys_None)
  ultimately show ?thesis by (simp add: dropped_def stale_def)
next
  case (Some dev)
  then have in_d: "dev \<in> set devices" "port_path dev = pp" using device_keys_Some by blast+
  have uniq: "d' = dev" if "d' \<in> set devices" "port_path d' = pp" for d'
  proof -
    have "device_keys devices (port_path d') = Some d'"
      using device_keys_distinct[OF assms that(1)] .
    with that(2) Some show ?thesis by simp
  qed
  have "(\<exists>d' \<in> set devices. port_path d' = pp \<and> \<not> is_valid d') = (\<not> is_valid dev)"
    using in_d uniq by blast
  moreover have "pp \<in> port_path ` set devices" using in_d by (metis imageI)
  ultimately show ?thesis using Some by (simp add: dropped_def stale_def)
qed

lemma trim_Nil: "trim [] pd = []"
proof -
  have "map_of (trim [] pd) = Map.empty"
    by (rule ext) (simp add: map_of_trim dropped_def device_keys_Nil)
  then show ?thesis by simp
qed

text \<open>
  Claim C6. For live devices of pairwise different port paths, \<open>trim\<close> removes exactly the
  cached entries whose port path is not among the live devices or whose live device is not
  valid, and leaves every other entry as it was; with no live device nothing is left; and
  the entry of a live, valid device is returned by \<open>get\<close> unchanged.
\<close>

theorem trim_removes_exactly_stale:
  assumes "distinct (map port_path devices)"
  shows "(\<forall>pp. map_of (trim devices pd) pp = (if stale devices pp then None else map_of pd pp))
         \<and> trim [] pd = []
         \<and> (\<forall>d \<in> set devices. is_valid d \<longrightarrow> cache_get (trim devices pd) d = cache_get pd d)"
proof (intro conjI allI ballI impI)
  fix pp show "map_of (trim devices pd) pp = (if stale devices pp then None else map_of pd pp)"
    by (simp add: map_of_trim dropped_stale[OF assms])
next
  show "trim [] pd = []" by (rule trim_Nil)
next
  fix d assume d: "d \<in> set devices" "is_valid d"
  have "\<not> dropped (device_keys devices) (port_path d)"
    using device_keys_distinct[OF assms d(1)] d(2) by (simp add: dropped_def)
  then show "cache_get (trim devices pd) d = cache_get pd d"
    by (simp add: cache_get_def map_of_trim)
qed

theorem trim_removes_exactly_stale_witness:
  "distinct (map port_path [fake_device ''usb1'' True no_files 0, fake_device ''usb2'' False no_files 0])
   \<and> map_of (trim [fake_device ''usb1'' True no_files 0, fake_device ''usb2'' False no_files 0]
        [(''usb1'', cache_of (Some [1]) None), (''usb2'', cache_of (Some [2]) None),
         (''usb3'', cache_of (Some [3]) None)]) ''usb1'' = Some (cache_of (Some [1]) None)
   \<and> map_of (trim [fake_device ''usb1'' True no_files 0, fake_device ''usb2'' False no_files 0]
        [(''usb1'', cache_of (Some [1]) None), (''usb2'', cache_of (Some [2]) None),
         (''usb3'', cache_of (Some [3]) None)]) ''usb2'' = None
   \<and> map_of (trim [fake_device ''usb1'' True no_files 0, fake_device ''usb2'' False no_files 0]
        [(''usb1'', cache_of (Some [1]) None), (''usb2'', cache_of (Some [2]) None),
         (''usb3'', cache_of (Some [3]) None)]) ''usb3'' = None"
proof -
  have h: "distinct (map port_path
      [fake_device ''usb1'' True no_files 0, fake_device ''usb2'' False no_files 0])"
    by (simp add: fake_device_def)
  from trim_removes_exactly_stale [OF h] h show ?thesis
    by (simp add: stale_def fake_device_def)
qed

section \<open>Rules for running a computation\<close>

declare SetCPUScalingGovernor.simps [simp del] SetCPUSpeed.simps [simp del] str_nat.simps [simp del]

lemma bnd_ret [simp]: "bnd (ret x) f = f x"
  by (rule ext) (simp add: bnd_def ret_def)

lemma bnd_raise [simp]: "bnd (raise e) f = raise e"
  by (rule ext) (simp add: bnd_def raise_def)

lemma bnd_apply:
  "bnd m f s = (case m s of None \<Rightarrow> None | Some (Inl e, s') \<Rightarrow> Some (Inl e, s')
                | Some (Inr x, s') \<Rightarrow> f x s')"
  by (simp add: bnd_def)

lemma ret_apply: "ret x s = Some (Inr x, s)"
  by (simp add: ret_def)

lemma raise_apply: "raise e s = Some (Inl e, s)"
  by (simp add: raise_def)

lemma PullContent_apply:
  "PullContent d p s = Some (Inr (dev_PullContent d s p), s @ [EPullContent p])"
  by (simp add: PullContent_def)

lemma PushContent_apply:
  "PushContent d c p s = Some (Inr (dev_PushContent d s c p), s @ [EPushContent c p])"
  by (simp add: PushContent_def)

lemma Stat_apply: "Stat d p s = Some (Inr (dev_Stat d s p), s @ [EStat p])"
  by (simp add: Stat_def)

lemma device_Shell_apply: "device_Shell d c s = Some (Inr (dev_Shell d s c), s @ [EShell c])"
  by (simp add: device_Shell_def)

lemma time_now_apply: "time_now d s = Some (Inr (time_time d s), s @ [ETime])"
  by (simp add: time_now_def)

lemma time_sleep_apply: "time_sleep s = Some (Inr (), s @ [ESleep])"
  by (simp add: time_sleep_def)

lemmas io_simps = bnd_apply ret_apply raise_apply PullContent_apply PushContent_apply Stat_apply
  device_Shell_apply time_now_apply time_sleep_apply

lemma strip_Nil [simp]: "strip [] = []"
  by (simp add: strip_def lstrip_def rstrip_def)

lemma known_nonempty: "x \<in> set KNOWN_CPU_SCALING_GOVERNOR_VALUES \<Longrightarrow> x \<noteq> []"
  by (auto simp: KNOWN_CPU_SCALING_GOVERNOR_VALUES_def)

lemma str_int_300000: "str_int 300000 = ''300000''"
  by (simp add: str_int_def digit_char_def str_nat.simps)

section \<open>Setting the CPU speed\<close>

text \<open>
  Claim C1, as the code has it. For a speed between 10000 and 10000000 that is not in the
  cached list of frequencies, \<open>SetCPUSpeed\<close> makes no call to the device at all, so it
  writes nothing: the trace is unchanged. It returns \<open>False\<close> when the cached list is absent
  or empty; when the list has elements the membership assertion fails and \<open>AssertionError\<close>
  is raised instead of a result being returned.
\<close>

theorem SetCPUSpeed_not_member:
  assumes "10000 \<le> speed" and "speed \<le> 10000000"
    and "speed \<notin> set (case available_frequencies c of None \<Rightarrow> [] | Some fs \<Rightarrow> fs)"
  shows "SetCPUSpeed d c n speed s =
           (if truthy_list (available_frequencies c) then Some (Inl AssertionError, s)
            else Some (Inr False, s))"
  using assms
  by (subst SetCPUSpeed.simps) (auto simp: io_simps truthy_list_def split: option.splits)

theorem SetCPUSpeed_not_member_witness:
  "(10000::int) \<le> 500000 \<and> (500000::int) \<le> 10000000
   \<and> 500000 \<notin> set (case available_frequencies (cache_of (Some [300000, 1000000]) None) of
                      None \<Rightarrow> [] | Some fs \<Rightarrow> fs)
   \<and> SetCPUSpeed (fake_device ''usb1'' True no_files 0) (cache_of (Some [300000, 1000000]) None)
        0 500000 [EStat ''x''] = Some (Inl AssertionError, [EStat ''x''])
   \<and> SetCPUSpeed (fake_device ''usb1'' True no_files 0) (cache_of None None) 0 500000
        [EStat ''x''] = Some (Inr False, [EStat ''x''])"
proof -
  have h: "500000 \<notin> set (case available_frequencies (cache_of (Some [300000, 1000000]) None) of
                      None \<Rightarrow> [] | Some fs \<Rightarrow> fs)"
    by (simp add: cache_of_def)
  have h': "500000 \<notin> set (case available_frequencies (cache_of None None) of
                      None \<Rightarrow> [] | Some fs \<Rightarrow> fs)"
    by (simp add: cache_of_def)
  have a: "(10000::int) \<le> 500000" and b: "(500000::int) \<le> 10000000" by simp_all
  from SetCPUSpeed_not_member [OF a b h] SetCPUSpeed_not_member [OF a b h'] h
  show ?thesis by (simp add: cache_of_def truthy_list_def)
qed

text \<open>
  The claim as it is written fails: with the frequencies 300000 and 1000000 cached, the call
  \<open>SetCPUSpeed(500000)\<close> does not return a failure result, it raises \<open>AssertionError\<close>.
\<close>

theorem SetCPUSpeed_not_member_counterexample:
  "SetCPUSpeed (fake_device ''usb1'' True no_files 0)
     (cache_of (Some [300000, 1000000]) (Some KNOWN_CPU_SCALING_GOVERNOR_VALUES)) 0 500000 []
   = Some (Inl AssertionError, [])"
  by (subst SetCPUSpeed.simps) (simp add: cache_of_def truthy_list_def io_simps)

section \<open>Setting the scaling governor\<close>

lemma sorted_hd_Min: "sorted (f # fs) \<Longrightarrow> Min (set (f # fs)) = (f::int)"
  by (auto intro!: Min_eqI)

text \<open>
  Claim C3, as the code has it. When the cached list of governors is not empty and does not
  contain \<open>powersave\<close>, and the cached list of frequencies is not empty and sorted,
  \<open>SetCPUScalingGovernor('powersave')\<close> is the call of \<open>SetCPUSpeed\<close> with the smallest
  frequency, the first element of the list: the same outcome and the same calls to the device.
\<close>

theorem powersave_fallback:
  assumes "available_governors c = Some gs" and "gs \<noteq> []" and "''powersave'' \<notin> set gs"
    and "available_frequencies c = Some fs" and "fs \<noteq> []" and "sorted fs"
  shows "SetCPUScalingGovernor d c n ''powersave'' s = SetCPUSpeed d c n (Min (set fs)) s
         \<and> Min (set fs) = fs ! 0"
proof -
  obtain f fs' where fs: "fs = f # fs'" using assms(5) by (cases fs) auto
  have m: "Min (set fs) = f" using assms(6) fs sorted_hd_Min by blast
  have "SetCPUScalingGovernor d c n ''powersave'' = SetCPUSpeed d c n f"
    using assms fs
    by (subst SetCPUScalingGovernor.simps)
      (simp add: truthy_list_def KNOWN_CPU_SCALING_GOVERNOR_VALUES_def)
  with m fs show ?thesis by simp
qed

theorem powersave_fallback_witness:
  "available_governors (cache_of (Some [300000, 1000000]) (Some [''interactive'']))
     = Some [''interactive'']
   \<and> [''interactive''] \<noteq> [] \<and> ''powersave'' \<notin> set [''interactive'']
   \<and> available_frequencies (cache_of (Some [300000, 1000000]) (Some [''interactive'']))
     = Some [300000, 1000000]
   \<and> [300000, 1000000 :: int] \<noteq> [] \<and> sorted [300000, 1000000 :: int]
   \<and> SetCPUScalingGovernor (fake_device ''usb1'' True no_files 0)
        (cache_of (Some [300000, 1000000]) (Some [''interactive''])) 0 ''powersave'' []
      = SetCPUSpeed (fake_device ''usb1'' True no_files 0)
        (cache_of (Some [300000, 1000000]) (Some [''interactive''])) 0 300000 []"
proof -
  have h1: "available_governors (cache_of (Some [300000, 1000000]) (Some [''interactive'']))
      = Some [''interactive'']"
    by (simp add: cache_of_def)
  have h2: "[''interactive''] \<noteq> []" by simp
  have h3: "''powersave'' \<notin> set [''interactive'']" by simp
  have h4: "available_frequencies (cache_of (Some [300000, 1000000]) (Some [''interactive'']))
      = Some [300000, 1000000]"
    by (simp add: cache_of_def)
  have h5: "[300000, 1000000 :: int] \<noteq> []" by simp
  have h6: "sorted [300000, 1000000 :: int]" by simp
  from powersave_fallback [OF h1 h2 h3 h4 h5 h6, of "fake_device ''usb1'' True no_files 0" 0 "[]"]
    h1 h2 h3 h4 h5 h6
  show ?thesis by simp
qed

text \<open>
  The claim as it is written fails for the empty list of governors, which does not contain
  \<open>powersave\<close> either: the call returns \<open>False\<close> at once and pins no frequency, while
  \<open>SetCPUSpeed(300000)\<close> writes the frequency file.
\<close>

theorem powersave_fallback_counterexample:
  "''powersave'' \<notin> set ([] :: string list)
   \<and> SetCPUScalingGovernor (fake_device ''usb1'' True no_files 0)
       (cache_of (Some [300000, 1000000]) (Some [])) 0 ''powersave'' [] = Some (Inr False, [])
   \<and> SetCPUSpeed (fake_device ''usb1'' True no_files 0)
       (cache_of (Some [300000, 1000000]) (Some [])) 0 300000 []
      = Some (Inr False,
          [EPushContent (''300000'' @ [CHR 0x0A])
             ''/sys/devices/system/cpu/cpu0/cpufreq/scaling_setspeed'',
           EPullContent ''/sys/devices/system/cpu/cpu0/cpufreq/scaling_setspeed''])"
  by (simp add: SetCPUSpeed.simps SetCPUScalingGovernor.simps cache_of_def truthy_list_def
      io_simps KNOWN_CPU_SCALING_GOVERNOR_VALUES_def fake_device_def no_files_def or_empty_def
      str_int_300000)

text \<open>
  Such a cache is what \<open>_InitCache\<close> stores for a device whose
  \<open>scaling_available_governors\<close> file holds a newline only.
\<close>

lemma empty_governors_stored:
  "InitCache (fake_device ''usb1'' True (device_files (Some [CHR 0x0A])) 0) [] []
   = Some (Inr (nexus_cache\<lparr>available_governors := Some []\<rparr>,
                [(''usb1'', nexus_cache\<lparr>available_governors := Some []\<rparr>)]),
           nexus_trace)"
  by code_simp

text \<open>
  Claim C4. For a known governor \<open>x\<close> that is in the cached list of governors, when the
  content read from the \<open>scaling_governor\<close> file is \<open>x\<close> once stripped,
  \<open>SetCPUScalingGovernor(x)\<close> returns \<open>True\<close> and the only call made to the device is that
  read: nothing is pushed and no shell command is run.
\<close>

theorem SetCPUScalingGovernor_idempotent:
  assumes "x \<in> set KNOWN_CPU_SCALING_GOVERNOR_VALUES"
    and "available_governors c = Some gs" and "x \<in> set gs"
    and "dev_PullContent d s ''/sys/devices/system/cpu/cpu0/cpufreq/scaling_governor'' = Some p"
    and "strip p = x"
  shows "SetCPUScalingGovernor d c n x s
         = Some (Inr True,
                 s @ [EPullContent ''/sys/devices/system/cpu/cpu0/cpufreq/scaling_governor''])"
proof -
  from assms(1,5) have "p \<noteq> []" using known_nonempty by fastforce
  with assms show ?thesis
    by (subst SetCPUScalingGovernor.simps)
      (auto simp: io_simps truthy_list_def truthy_str_def or_empty_def)
qed

theorem SetCPUScalingGovernor_idempotent_witness:
  "''interactive'' \<in> set KNOWN_CPU_SCALING_GOVERNOR_VALUES
   \<and> available_governors
        (cache_of (Some [300000, 1000000]) (Some [''interactive'', ''performance'']))
       = Some [''interactive'', ''performance'']
   \<and> ''interactive'' \<in> set [''interactive'', ''performance'']
   \<and> dev_PullContent
        (fake_device ''usb1'' True (governor_file (''interactive'' @ [CHR 0x0A])) 0) []
        ''/sys/devices/system/cpu/cpu0/cpufreq/scaling_governor''
       = Some (''interactive'' @ [CHR 0x0A])
   \<and> strip (''interactive'' @ [CHR 0x0A]) = ''interactive''
   \<and> SetCPUScalingGovernor
        (fake_device ''usb1'' True (governor_file (''interactive'' @ [CHR 0x0A])) 0)
        (cache_of (Some [300000, 1000000]) (Some [''interactive'', ''performance''])) 0
        ''interactive'' []
       = Some (Inr True, [EPullContent ''/sys/devices/system/cpu/cpu0/cpufreq/scaling_governor''])"
proof -
  have h1: "''interactive'' \<in> set KNOWN_CPU_SCALING_GOVERNOR_VALUES"
    by (simp add: KNOWN_CPU_SCALING_GOVERNOR_VALUES_def)
  have h2: "available_governors
        (cache_of (Some [300000, 1000000]) (Some [''interactive'', ''performance'']))
       = Some [''interactive'', ''performance'']"
    by (simp add: cache_of_def)
  have h3: "''interactive'' \<in> set [''interactive'', ''performance'']" by simp
  have h4: "dev_PullContent
        (fake_device ''usb1'' True (governor_file (''interactive'' @ [CHR 0x0A])) 0) []
        ''/sys/devices/system/cpu/cpu0/cpufreq/scaling_governor''
       = Some (''interactive'' @ [CHR 0x0A])"
    by (simp add: fake_device_def governor_file_def)
  have h5: "strip (''interactive'' @ [CHR 0x0A]) = ''interactive''"
    by (simp add: strip_def lstrip_def rstrip_def is_space_def)
  from SetCPUScalingGovernor_idempotent [OF h1 h2 h3 h4 h5, of 0] h1 h2 h3 h4 h5
  show ?thesis by simp
qed

section \<open>The events a computation appends\<close>

lemma emitsI: "(\<And>s r s'. m s = Some (r, s') \<Longrightarrow> \<exists>es. s' = s @ es \<and> list_all P es) \<Longrightarrow> emits P m"
  by (simp add: emits_def)

lemma emitsD: "emits P m \<Longrightarrow> m s = Some (r, s') \<Longrightarrow> \<exists>es. s' = s @ es \<and> list_all P es"
  by (simp add: emits_def)

lemma emits_ret [intro!, simp]: "emits P (ret x)"
  by (simp add: emits_def ret_def)

lemma emits_raise [intro!, simp]: "emits P (raise e)"
  by (simp add: emits_def raise_def)

lemma emits_diverge [intro!, simp]: "emits P diverge"
  by (simp add: emits_def diverge_def)

lemma emits_lift [intro!, simp]: "emits P (lift r)"
  by (cases r) (simp_all add: lift_def)

lemma emits_unpack [intro!, simp]: "emits P (unpack r)"
  by (cases r) (simp_all add: unpack_def)

lemma emits_bnd [intro!]:
  assumes "emits P m" and "\<And>x. emits P (f x)"
  shows "emits P (bnd m f)"
proof (rule emitsI)
  fix s r s' assume run: "bnd m f s = Some (r, s')"
  show "\<exists>es. s' = s @ es \<and> list_all P es"
  proof (cases "m s")
    case None
    with run show ?thesis by (simp add: bnd_def)
  next
    case (Some a)
    obtain r1 s1 where a: "a = (r1, s1)" by (cases a)
    from emitsD[OF assms(1)] Some a obtain es1 where es1: "s1 = s @ es1" "list_all P es1" by blast
    show ?thesis
    proof (cases r1)
      case (Inl e)
      with run Some a es1 show ?thesis by (auto simp: bnd_def)
    next
      case (Inr x)
      with run Some a have "f x s1 = Some (r, s')" by (simp add: bnd_def)
      from emitsD[OF assms(2) this] obtain es2 where "s' = s1 @ es2" "list_all P es2" by blast
      with es1 show ?thesis by auto
    qed
  qed
qed

lemma emits_try_finally [intro!]:
  assumes "emits P body" and "emits P fin"
  shows "emits P (try_finally body fin)"
proof (rule emitsI)
  fix s r s' assume run: "try_finally body fin s = Some (r, s')"
  then obtain r1 s1 where b: "body s = Some (r1, s1)"
    by (auto simp: try_finally_def split: option.splits)
  with run obtain r2 where f: "fin s1 = Some (r2, s')"
    by (auto simp: try_finally_def split: option.splits sum.splits)
  from emitsD[OF assms(1) b] obtain es1 where es1: "s1 = s @ es1" "list_all P es1" by blast
  from emitsD[OF assms(2) f] obtain es2 where "s' = s1 @ es2" "list_all P es2" by blast
  with es1 show "\<exists>es. s' = s @ es \<and> list_all P es" by auto
qed

lemma emits_PullContent [intro!]: "P (EPullContent p) \<Longrightarrow> emits P (PullContent d p)"
  by (simp add: emits_def PullContent_def)

lemma emits_PushContent [intro!]: "P (EPushContent c p) \<Longrightarrow> emits P (PushContent d c p)"
  by (simp add: emits_def PushContent_def)

lemma emits_Stat [intro!]: "P (EStat p) \<Longrightarrow> emits P (Stat d p)"
  by (simp add: emits_def Stat_def)

lemma emits_device_Shell [intro!]: "P (EShell c) \<Longrightarrow> emits P (device_Shell d c)"
  by (simp add: emits_def device_Shell_def)

lemma emits_time_now [intro!]: "P ETime \<Longrightarrow> emits P (time_now d)"
  by (simp add: emits_def time_now_def)

lemma emits_time_sleep [intro!]: "P ESleep \<Longrightarrow> emits P time_sleep"
  by (simp add: emits_def time_sleep_def)

lemma emits_random_choice [intro!]: "P ERandom \<Longrightarrow> emits P (random_choice d xs)"
  by (simp add: emits_def random_choice_def)

lemma emits_if [intro!]: "(b \<Longrightarrow> emits P m) \<Longrightarrow> (\<not> b \<Longrightarrow> emits P m') \<Longrightarrow> emits P (if b then m else m')"
  by simp

lemma emits_case_prod [intro!]: "(\<And>a b. emits P (f a b)) \<Longrightarrow> emits P (case x of (a, b) \<Rightarrow> f a b)"
  by (cases x) simp

lemma emits_True_properties: "emits (\<lambda>_. True) (InitCache_properties d)"
  unfolding InitCache_properties_def by (intro emits_bnd emits_if emits_PullContent emits_ret emits_lift TrueI)

lemma emits_True_governors: "emits (\<lambda>_. True) (InitCache_governors d)"
  unfolding InitCache_governors_def by (intro emits_bnd emits_if emits_PullContent emits_ret emits_raise TrueI)

lemma emits_True_frequencies: "emits (\<lambda>_. True) (InitCache_frequencies d)"
  unfolding InitCache_frequencies_def by (intro emits_bnd emits_if emits_PullContent emits_ret emits_lift TrueI)

section \<open>Computations that always return\<close>

lemma total_ret [intro!, simp]: "total (ret x)"
  by (simp add: total_def ret_def)

lemma total_raise [intro!, simp]: "total (raise e)"
  by (simp add: total_def raise_def)

lemma total_lift [intro!, simp]: "total (lift r)"
  by (cases r) (simp_all add: lift_def)

lemma total_bnd [intro!]: "total m \<Longrightarrow> (\<And>x. total (f x)) \<Longrightarrow> total (bnd m f)"
  by (auto simp: total_def bnd_def split: option.splits sum.splits)

lemma total_PullContent [intro!, simp]: "total (PullContent d p)"
  by (simp add: total_def PullContent_def)

lemma total_Stat [intro!, simp]: "total (Stat d p)"
  by (simp add: total_def Stat_def)

lemma total_device_Shell [intro!, simp]: "total (device_Shell d p)"
  by (simp add: total_def device_Shell_def)

lemma total_if [intro!]: "(b \<Longrightarrow> total m) \<Longrightarrow> (\<not> b \<Longrightarrow> total m') \<Longrightarrow> total (if b then m else m')"
  by simp

lemma total_case_prod [intro!]: "(\<And>a b. total (f a b)) \<Longrightarrow> total (case x of (a, b) \<Rightarrow> f a b)"
  by (cases x) simp

lemma total_properties: "total (InitCache_properties d)"
  unfolding InitCache_properties_def by (intro total_bnd total_if total_PullContent total_ret total_lift)

lemma total_governors: "total (InitCache_governors d)"
  unfolding InitCache_governors_def by (intro total_bnd total_if total_PullContent total_ret total_raise)

lemma total_frequencies: "total (InitCache_frequencies d)"
  unfolding InitCache_frequencies_def by (intro total_bnd total_if total_PullContent total_ret total_lift)

lemma total_InitCache: "total (InitCache d pd)"
  unfolding InitCache_def
  by (auto intro!: total_bnd total_if total_case_prod total_properties total_governors total_frequencies split: option.splits)

section \<open>The shell only appends to the trace\<close>

lemma emits_random_chars: "emits (\<lambda>_. True) (random_chars d k)"
  by (induction k) (auto intro!: emits_bnd emits_random_choice)

lemma emits_Mkstemp_loop: "emits (\<lambda>_. True) (Mkstemp_loop d content name_prefix name_suffix k)"
  by (induction k) (auto intro!: emits_bnd emits_random_chars emits_Stat emits_PushContent emits_case_prod)

lemma emits_Mkstemp: "emits (\<lambda>_. True) (Mkstemp d content name_prefix name_suffix)"
  by (simp add: Mkstemp_def emits_Mkstemp_loop)

lemma emits_WrappedShell_body:
  assumes "\<And>cmd. emits (\<lambda>_. True) (self_Shell cmd)"
  shows "emits (\<lambda>_. True) (WrappedShell_body d self_Shell commands)"
  unfolding WrappedShell_body_def
  by (auto intro!: emits_bnd emits_try_finally emits_Mkstemp emits_PullContent emits_case_prod assms)

lemma emits_Shell: "emits (\<lambda>_. True) (Shell d n cmd)"
  by (induction n arbitrary: cmd)
    (auto intro!: emits_bnd emits_device_Shell emits_case_prod emits_WrappedShell_body)

lemma bnd_first_event:
  assumes "bnd m f s = Some (r, s')" and "\<And>s. \<exists>x. m s = Some (Inr x, s @ [e])"
    and "\<And>x. emits (\<lambda>_. True) (f x)"
  shows "prefix (s @ [e]) s'"
proof -
  from assms(2) obtain x where x: "m s = Some (Inr x, s @ [e])" by blast
  with assms(1) have "f x (s @ [e]) = Some (r, s')" by (simp add: bnd_def)
  from emitsD[OF assms(3) this] show ?thesis by (auto simp: prefix_def)
qed

lemma governor_reads_first:
  assumes "g \<in> set KNOWN_CPU_SCALING_GOVERNOR_VALUES" and "available_governors c = Some gs"
    and "g \<in> set gs" and "SetCPUScalingGovernor d c n g t = Some (r, t')"
  shows "prefix (t @ [EPullContent ''/sys/devices/system/cpu/cpu0/cpufreq/scaling_governor'']) t'"
proof -
  from assms(3) have ne: "gs \<noteq> []" by auto
  show ?thesis
    using assms(4)
    apply (subst (asm) SetCPUScalingGovernor.simps)
    apply (simp add: assms(1,2,3) ne truthy_list_def)
    apply (erule bnd_first_event)
     apply (simp add: PullContent_def)
    apply (auto intro!: emits_bnd emits_PushContent emits_PullContent emits_Shell emits_case_prod)
    done
qed

section \<open>The blocks of priming: what they return and what they raise\<close>

lemma bnd_InrE:
  assumes "bnd m f s = Some (Inr y, s')"
  obtains x s1 where "m s = Some (Inr x, s1)" and "f x s1 = Some (Inr y, s')"
  using assms by (auto simp: bnd_def split: option.splits sum.splits)

lemma bnd_InlE:
  assumes "bnd m f s = Some (Inl e, s')"
  obtains "m s = Some (Inl e, s')"
  | x s1 where "m s = Some (Inr x, s1)" and "f x s1 = Some (Inl e, s')"
  using assms by (auto simp: bnd_def split: option.splits sum.splits)

lemma governors_default:
  assumes "\<not> truthy_str (dev_PullContent d s ''/sys/devices/system/cpu/cpu0/cpufreq/scaling_available_governors'')"
  shows "InitCache_governors d s = Some (Inr KNOWN_CPU_SCALING_GOVERNOR_VALUES,
           s @ [EPullContent ''/sys/devices/system/cpu/cpu0/cpufreq/scaling_available_governors''])"
  using assms by (simp add: InitCache_governors_def bnd_def PullContent_def ret_def)

lemma governors_unknown:
  assumes "truthy_str (dev_PullContent d s ''/sys/devices/system/cpu/cpu0/cpufreq/scaling_available_governors'')"
    and "\<not> set (split_ws (or_empty (dev_PullContent d s ''/sys/devices/system/cpu/cpu0/cpufreq/scaling_available_governors''))) \<subseteq> set KNOWN_CPU_SCALING_GOVERNOR_VALUES"
  shows "InitCache_governors d s = Some (Inl AssertionError,
           s @ [EPullContent ''/sys/devices/system/cpu/cpu0/cpufreq/scaling_available_governors''])"
  using assms by (simp add: InitCache_governors_def bnd_def PullContent_def raise_def)

lemma governors_Inl:
  assumes "InitCache_governors d s = Some (Inl e, s')"
  shows "e = AssertionError
     \<and> s' = s @ [EPullContent ''/sys/devices/system/cpu/cpu0/cpufreq/scaling_available_governors'']
     \<and> truthy_str (dev_PullContent d s ''/sys/devices/system/cpu/cpu0/cpufreq/scaling_available_governors'')
     \<and> \<not> set (split_ws (or_empty (dev_PullContent d s ''/sys/devices/system/cpu/cpu0/cpufreq/scaling_available_governors''))) \<subseteq> set KNOWN_CPU_SCALING_GOVERNOR_VALUES"
  using assms
  by (auto simp: InitCache_governors_def bnd_def PullContent_def raise_def ret_def split: if_splits)

lemma lift_Inl: "lift r s = Some (Inl e, s') \<Longrightarrow> r = Inl e \<and> s' = s"
  by (cases r) (auto simp: lift_def raise_def ret_def)

lemma parse_build_prop_Inl: "parse_build_prop ps ls = Inl e \<Longrightarrow> e = ValueError"
  by (induction ps ls rule: parse_build_prop.induct) (auto split: if_splits option.splits)

lemma py_int_Inl: "py_int x = Inl e \<Longrightarrow> e = ValueError"
  by (auto simp: py_int_def Let_def split: if_splits)

lemma ints_of_Inl: "ints_of xs = Inl e \<Longrightarrow> e = ValueError"
  by (induction xs) (auto split: sum.splits dest: py_int_Inl)

lemma properties_run:
  "\<exists>r. InitCache_properties d s = Some (r, s @ [EPullContent ''/system/build.prop''])"
  by (cases "parse_build_prop [] (splitlines (or_empty (dev_PullContent d s ''/system/build.prop'')))")
    (auto simp: InitCache_properties_def bnd_def PullContent_def ret_def raise_def lift_def)

lemma properties_Inl: "InitCache_properties d s = Some (Inl e, s') \<Longrightarrow> e = ValueError"
  by (cases "parse_build_prop [] (splitlines (or_empty (dev_PullContent d s ''/system/build.prop'')))")
    (auto simp: InitCache_properties_def bnd_def PullContent_def ret_def raise_def lift_def
      split: if_splits dest: parse_build_prop_Inl)

lemma lift_map_sum_Inl: "lift (map_sum id f r) s = Some (Inl e, s') \<Longrightarrow> r = Inl e"
  by (cases r) (auto simp: lift_def raise_def ret_def)

lemma frequencies_Inl:
  assumes "InitCache_frequencies d s = Some (Inl e, s')"
  shows "e = ValueError"
proof -
  show ?thesis
  proof (cases "truthy_str (dev_PullContent d s ''/sys/devices/system/cpu/cpu0/cpufreq/scaling_available_frequencies'')")
    case True
    with assms have "lift (map_sum id (\<lambda>is. Some (sort is))
        (ints_of (split_ws (strip (or_empty (dev_PullContent d s ''/sys/devices/system/cpu/cpu0/cpufreq/scaling_available_frequencies''))))))
        (s @ [EPullContent ''/sys/devices/system/cpu/cpu0/cpufreq/scaling_available_frequencies'']) = Some (Inl e, s')"
      by (simp add: InitCache_frequencies_def bnd_def PullContent_def)
    then show ?thesis using lift_map_sum_Inl ints_of_Inl by blast
  next
    case False
    with assms show ?thesis
      by (auto simp: InitCache_frequencies_def bnd_apply PullContent_apply ret_apply
          split: if_splits option.splits sum.splits prod.splits dest!: lift_Inl dest: py_int_Inl)
  qed
qed

section \<open>Priming the cache: what is stored\<close>

lemma InitCache_miss_Inr:
  assumes miss: "cache_get pd d = None"
    and run: "InitCache d pd s = Some (Inr (c, pd'), s')"
  shows "\<exists>out exitcode props mode gs fs s3 s4.
    InitCache_properties d (s @ [EShell ''echo -n $EXTERNAL_STORAGE'']) = Some (Inr props, s3)
    \<and> InitCache_governors d (s3 @ [EStat ''/system/xbin/su'']) = Some (Inr gs, s4)
    \<and> InitCache_frequencies d s4 = Some (Inr fs, s')
    \<and> c = \<lparr> build_props = props,
           external_storage_path = (if truthy_int exitcode then None else out),
           has_su = truthy_int mode, available_frequencies = fs,
           available_governors = Some gs \<rparr>
    \<and> pd' = (if all_not_None c then cache_set pd d c else pd)"
  using run miss unfolding InitCache_def
  by (simp add: io_simps split: option.splits sum.splits prod.splits if_splits) blast+

lemma InitCache_first_event:
  assumes "cache_get pd d = None" and "InitCache d pd t = Some (r, t')"
  shows "prefix (t @ [EShell ''echo -n $EXTERNAL_STORAGE'']) t'"
  using assms(2) unfolding InitCache_def
  apply (simp add: assms(1))
  apply (erule bnd_first_event)
   apply (simp add: device_Shell_def)
  apply (auto intro!: emits_bnd emits_Stat emits_case_prod emits_True_properties
      emits_True_governors emits_True_frequencies)
  done

lemma total_D: "total m \<Longrightarrow> \<exists>r s'. m s = Some (r, s')"
  by (simp add: total_def)

lemma governors_Inr_default:
  assumes "InitCache_governors d s = Some (Inr gs, s')"
    and "\<not> truthy_str (dev_PullContent d s ''/sys/devices/system/cpu/cpu0/cpufreq/scaling_available_governors'')"
  shows "gs = KNOWN_CPU_SCALING_GOVERNOR_VALUES"
  using assms(1) governors_default[OF assms(2)] by simp

lemma InitCache_after_properties:
  assumes "cache_get pd d = None"
    and "InitCache_properties d (s @ [EShell ''echo -n $EXTERNAL_STORAGE'']) = Some (Inr props, s2)"
  shows "InitCache d pd s =
    (case InitCache_governors d (s2 @ [EStat ''/system/xbin/su'']) of
       None \<Rightarrow> None
     | Some (Inl e, s4) \<Rightarrow> Some (Inl e, s4)
     | Some (Inr gs, s4) \<Rightarrow>
        (case InitCache_frequencies d s4 of
           None \<Rightarrow> None
         | Some (Inl e, s5) \<Rightarrow> Some (Inl e, s5)
         | Some (Inr fs, s5) \<Rightarrow>
             (let c = \<lparr> build_props = props,
                   external_storage_path =
                     (if truthy_int (snd (dev_Shell d s ''echo -n $EXTERNAL_STORAGE'')) then None
                      else fst (dev_Shell d s ''echo -n $EXTERNAL_STORAGE'')),
                   has_su = truthy_int (fst (dev_Stat d s2 ''/system/xbin/su'')),
                   available_frequencies = fs, available_governors = Some gs \<rparr>
              in Some (Inr (c, if all_not_None c then cache_set pd d c else pd), s5))))"
  using assms unfolding InitCache_def
  by (simp add: io_simps Let_def split: option.splits sum.splits prod.splits)

lemma bare_run:
  "InitCache (fake_device ''usb1'' True no_files 0) [] [] = Some (Inr (bare_cache, []), bare_trace)"
  by code_simp

lemma nexus_run:
  "InitCache (fake_device ''usb1'' True (device_files (Some (''ondemand interactive'' @ [CHR 0x0A]))) 0)
     [] [] = Some (Inr (nexus_cache, [(''usb1'', nexus_cache)]), nexus_trace)"
  by code_simp

text \<open>
  Claim C2, as the code has it. \<open>_InitCache\<close> asserts that every governor the device reports
  is a known one. When the build properties have been read without error, it raises
  \<open>AssertionError\<close> exactly when the content read from \<open>scaling_available_governors\<close> is not
  empty and has a name outside the known set; no other step of \<open>_InitCache\<close> raises that
  exception.
\<close>

theorem InitCache_asserts_known_governors:
  assumes "cache_get pd d = None"
    and "InitCache_properties d (s @ [EShell ''echo -n $EXTERNAL_STORAGE'']) = Some (Inr props, s2)"
    and "out = dev_PullContent d (s2 @ [EStat ''/system/xbin/su''])
                 ''/sys/devices/system/cpu/cpu0/cpufreq/scaling_available_governors''"
  shows "(\<exists>s'. InitCache d pd s = Some (Inl AssertionError, s'))
         = (truthy_str out \<and> \<not> set (split_ws (or_empty out)) \<subseteq> set KNOWN_CPU_SCALING_GOVERNOR_VALUES)"
proof
  assume "\<exists>s'. InitCache d pd s = Some (Inl AssertionError, s')"
  then obtain s' where run: "InitCache d pd s = Some (Inl AssertionError, s')" by blast
  show "truthy_str out \<and> \<not> set (split_ws (or_empty out)) \<subseteq> set KNOWN_CPU_SCALING_GOVERNOR_VALUES"
  proof (cases "InitCache_governors d (s2 @ [EStat ''/system/xbin/su''])")
    case None
    with run show ?thesis by (simp add: InitCache_after_properties[OF assms(1,2)])
  next
    case (Some a)
    obtain r s4 where a: "a = (r, s4)" by (cases a)
    show ?thesis
    proof (cases r)
      case (Inl e)
      with Some a have "InitCache_governors d (s2 @ [EStat ''/system/xbin/su'']) = Some (Inl e, s4)"
        by simp
      from governors_Inl[OF this] show ?thesis by (simp add: assms(3))
    next
      case (Inr gs)
      with run Some a have "\<exists>s5. InitCache_frequencies d s4 = Some (Inl AssertionError, s5)"
        by (simp add: InitCache_after_properties[OF assms(1,2)] Let_def
            split: option.splits sum.splits prod.splits)
      then show ?thesis using frequencies_Inl by blast
    qed
  qed
next
  assume "truthy_str out \<and> \<not> set (split_ws (or_empty out)) \<subseteq> set KNOWN_CPU_SCALING_GOVERNOR_VALUES"
  then have "InitCache_governors d (s2 @ [EStat ''/system/xbin/su'']) = Some (Inl AssertionError,
      s2 @ [EStat ''/system/xbin/su''] @ [EPullContent ''/sys/devices/system/cpu/cpu0/cpufreq/scaling_available_governors''])"
    using governors_unknown[of d "s2 @ [EStat ''/system/xbin/su'']"] by (simp add: assms(3))
  then show "\<exists>s'. InitCache d pd s = Some (Inl AssertionError, s')"
    by (simp add: InitCache_after_properties[OF assms(1,2)])
qed

theorem InitCache_asserts_known_governors_witness:
  "cache_get [] (fake_device ''usb1'' True
       (device_files (Some (''interactive schedutil'' @ [CHR 0x0A]))) 0) = None
   \<and> InitCache_properties (fake_device ''usb1'' True
       (device_files (Some (''interactive schedutil'' @ [CHR 0x0A]))) 0)
       ([] @ [EShell ''echo -n $EXTERNAL_STORAGE''])
     = Some (Inr (Some [(''ro.product.model'', ''Nexus 5'')]),
             [EShell ''echo -n $EXTERNAL_STORAGE'', EPullContent ''/system/build.prop''])
   \<and> (\<exists>s'. InitCache (fake_device ''usb1'' True
       (device_files (Some (''interactive schedutil'' @ [CHR 0x0A]))) 0) [] []
       = Some (Inl AssertionError, s'))"
proof -
  let ?d = "fake_device ''usb1'' True (device_files (Some (''interactive schedutil'' @ [CHR 0x0A]))) 0"
  have h1: "cache_get [] ?d = None" by (simp add: cache_get_def)
  have h2: "InitCache_properties ?d ([] @ [EShell ''echo -n $EXTERNAL_STORAGE''])
     = Some (Inr (Some [(''ro.product.model'', ''Nexus 5'')]),
             [EShell ''echo -n $EXTERNAL_STORAGE'', EPullContent ''/system/build.prop''])"
    by code_simp
  have h3: "truthy_str (dev_PullContent ?d
          ([EShell ''echo -n $EXTERNAL_STORAGE'', EPullContent ''/system/build.prop'']
           @ [EStat ''/system/xbin/su''])
          ''/sys/devices/system/cpu/cpu0/cpufreq/scaling_available_governors'')
      \<and> \<not> set (split_ws (or_empty (dev_PullContent ?d
          ([EShell ''echo -n $EXTERNAL_STORAGE'', EPullContent ''/system/build.prop'']
           @ [EStat ''/system/xbin/su''])
          ''/sys/devices/system/cpu/cpu0/cpufreq/scaling_available_governors'')))
        \<subseteq> set KNOWN_CPU_SCALING_GOVERNOR_VALUES"
    by code_simp
  from InitCache_asserts_known_governors [OF h1 h2 refl] h1 h2 h3 show ?thesis by blast
qed

text \<open>
  The claim as it is written fails: a device that reports the governors \<open>interactive\<close> and
  \<open>schedutil\<close> makes \<open>_InitCache\<close> raise \<open>AssertionError\<close> right after the governors are read.
\<close>

theorem InitCache_asserts_known_governors_counterexample:
  "InitCache (fake_device ''usb1'' True
       (device_files (Some (''interactive schedutil'' @ [CHR 0x0A]))) 0) [] []
   = Some (Inl AssertionError,
       [EShell ''echo -n $EXTERNAL_STORAGE'', EPullContent ''/system/build.prop'',
        EStat ''/system/xbin/su'',
        EPullContent ''/sys/devices/system/cpu/cpu0/cpufreq/scaling_available_governors''])"
  by code_simp

text \<open>
  Claim C9 does not hold of the code. The test before the snapshot is stored only sees a
  field that is \<open>None\<close>, and two of the calls cannot produce one: a failed \<open>Stat\<close> of
  \<open>/system/xbin/su\<close> gives \<open>has_su = False\<close>, and a failed read of the available governors
  leaves the known list in place. A device whose \<open>Stat\<close> fails has its snapshot stored, and so
  has a device whose governors cannot be read either.
\<close>

theorem InitCache_stores_degraded:
  "fst (dev_Stat (fake_device ''usb1'' True
            (device_files (Some (''ondemand interactive'' @ [CHR 0x0A]))) 0)
          [EShell ''echo -n $EXTERNAL_STORAGE'', EPullContent ''/system/build.prop'']
          ''/system/xbin/su'') = None
   \<and> InitCache (fake_device ''usb1'' True
          (device_files (Some (''ondemand interactive'' @ [CHR 0x0A]))) 0) [] []
       = Some (Inr (nexus_cache, [(''usb1'', nexus_cache)]), nexus_trace)
   \<and> has_su nexus_cache = False
   \<and> fst (dev_Stat (fake_device ''usb1'' True (device_files None) 0)
          [EShell ''echo -n $EXTERNAL_STORAGE'', EPullContent ''/system/build.prop'']
          ''/system/xbin/su'') = None
   \<and> dev_PullContent (fake_device ''usb1'' True (device_files None) 0)
          [EShell ''echo -n $EXTERNAL_STORAGE'', EPullContent ''/system/build.prop'',
           EStat ''/system/xbin/su'']
          ''/sys/devices/system/cpu/cpu0/cpufreq/scaling_available_governors'' = None
   \<and> InitCache (fake_device ''usb1'' True (device_files None) 0) [] []
       = Some (Inr (degraded_cache, [(''usb1'', degraded_cache)]), nexus_trace)
   \<and> cache_get [(''usb1'', degraded_cache)] (fake_device ''usb1'' True (device_files None) 0)
       = Some degraded_cache"
  by code_simp

text \<open>
  Claim C10. On a cache miss, when every read of \<open>scaling_available_governors\<close> gives no
  content (\<open>None\<close> or the empty string), the snapshot \<open>_InitCache\<close> returns has the six known
  governors as its available governors, a list that is not empty; so for each known governor
  a later \<open>SetCPUScalingGovernor\<close> does not return at its first guard: whenever it
  returns, it has first read the \<open>scaling_governor\<close> file.
\<close>

theorem InitCache_governors_fallback:
  assumes "cache_get pd d = None"
    and "\<forall>t. \<not> truthy_str (dev_PullContent d t
            ''/sys/devices/system/cpu/cpu0/cpufreq/scaling_available_governors'')"
    and "InitCache d pd s = Some (Inr (c, pd'), s')"
  shows "available_governors c = Some KNOWN_CPU_SCALING_GOVERNOR_VALUES
     \<and> truthy_list (available_governors c)
     \<and> (\<forall>g \<in> set KNOWN_CPU_SCALING_GOVERNOR_VALUES. \<forall>n t r t'.
          SetCPUScalingGovernor d c n g t = Some (r, t')
          \<longrightarrow> prefix (t @ [EPullContent ''/sys/devices/system/cpu/cpu0/cpufreq/scaling_governor'']) t')"
proof -
  from InitCache_miss_Inr[OF assms(1,3)] obtain gs s3 s4 where
    g: "InitCache_governors d (s3 @ [EStat ''/system/xbin/su'']) = Some (Inr gs, s4)"
    and c: "available_governors c = Some gs"
    by auto
  from governors_Inr_default[OF g] assms(2) have gs: "gs = KNOWN_CPU_SCALING_GOVERNOR_VALUES"
    by blast
  have 1: "available_governors c = Some KNOWN_CPU_SCALING_GOVERNOR_VALUES" using c gs by simp
  have 2: "truthy_list (available_governors c)"
    by (simp add: 1 truthy_list_def KNOWN_CPU_SCALING_GOVERNOR_VALUES_def)
  have 3: "prefix (t @ [EPullContent ''/sys/devices/system/cpu/cpu0/cpufreq/scaling_governor'']) t'"
    if "g \<in> set KNOWN_CPU_SCALING_GOVERNOR_VALUES"
      and "SetCPUScalingGovernor d c n g t = Some (r, t')" for g n t r t'
    using governor_reads_first[OF that(1) 1 that(1) that(2)] .
  show ?thesis
  proof (intro conjI ballI allI impI)
    show "available_governors c = Some KNOWN_CPU_SCALING_GOVERNOR_VALUES" by (rule 1)
    show "truthy_list (available_governors c)" by (rule 2)
    fix g n t r t'
    assume "g \<in> set KNOWN_CPU_SCALING_GOVERNOR_VALUES"
      and "SetCPUScalingGovernor d c n g t = Some (r, t')"
    then show "prefix (t @ [EPullContent ''/sys/devices/system/cpu/cpu0/cpufreq/scaling_governor'']) t'"
      by (rule 3)
  qed
qed

theorem InitCache_governors_fallback_witness:
  "cache_get [] (fake_device ''usb1'' True no_files 0) = None
   \<and> (\<forall>t. \<not> truthy_str (dev_PullContent (fake_device ''usb1'' True no_files 0) t
            ''/sys/devices/system/cpu/cpu0/cpufreq/scaling_available_governors''))
   \<and> InitCache (fake_device ''usb1'' True no_files 0) [] [] = Some (Inr (bare_cache, []), bare_trace)
   \<and> available_governors bare_cache = Some KNOWN_CPU_SCALING_GOVERNOR_VALUES
   \<and> SetCPUScalingGovernor (fake_device ''usb1'' True no_files 0) bare_cache 0 ''performance'' []
       = Some (Inr False,
           [EPullContent ''/sys/devices/system/cpu/cpu0/cpufreq/scaling_governor'',
            EPushContent (''performance'' @ [CHR 0x0A]) ''/sys/devices/system/cpu/cpu0/cpufreq/scaling_governor'',
            EPullContent ''/sys/devices/system/cpu/cpu0/cpufreq/scaling_governor''])
   \<and> prefix ([] @ [EPullContent ''/sys/devices/system/cpu/cpu0/cpufreq/scaling_governor''])
        [EPullContent ''/sys/devices/system/cpu/cpu0/cpufreq/scaling_governor'',
         EPushContent (''performance'' @ [CHR 0x0A]) ''/sys/devices/system/cpu/cpu0/cpufreq/scaling_governor'',
         EPullContent ''/sys/devices/system/cpu/cpu0/cpufreq/scaling_governor'']"
proof -
  let ?d = "fake_device ''usb1'' True no_files 0"
  have h1: "cache_get [] ?d = None" by (simp add: cache_get_def)
  have h2: "\<forall>t. \<not> truthy_str (dev_PullContent ?d t
            ''/sys/devices/system/cpu/cpu0/cpufreq/scaling_available_governors'')"
    by (simp add: fake_device_def no_files_def truthy_str_def)
  have h3: "InitCache ?d [] [] = Some (Inr (bare_cache, []), bare_trace)" by (rule bare_run)
  have k: "''performance'' \<in> set KNOWN_CPU_SCALING_GOVERNOR_VALUES"
    by (simp add: KNOWN_CPU_SCALING_GOVERNOR_VALUES_def)
  have run: "SetCPUScalingGovernor ?d bare_cache 0 ''performance'' []
       = Some (Inr False,
           [EPullContent ''/sys/devices/system/cpu/cpu0/cpufreq/scaling_governor'',
            EPushContent (''performance'' @ [CHR 0x0A]) ''/sys/devices/system/cpu/cpu0/cpufreq/scaling_governor'',
            EPullContent ''/sys/devices/system/cpu/cpu0/cpufreq/scaling_governor''])"
    by code_simp
  from InitCache_governors_fallback [OF h1 h2 h3] k run h1 h2 h3 show ?thesis by blast
qed

section \<open>The wrapped shell removes its temporary files\<close>

lemma shell_cmds_append [simp]: "shell_cmds (xs @ ys) = shell_cmds xs @ shell_cmds ys"
  by (induction xs rule: shell_cmds.induct) auto

lemma shell_cmds_no_shell: "list_all (\<lambda>e. \<not> is_shell e) es \<Longrightarrow> shell_cmds es = []"
  by (induction es rule: shell_cmds.induct) (auto simp: is_shell_def)

lemma emits_mono: "emits P m \<Longrightarrow> (\<And>e. P e \<Longrightarrow> Q e) \<Longrightarrow> emits Q m"
  unfolding emits_def by (metis (mono_tags, lifting) list_all_iff)

lemma emits_random_chars_P: "P ERandom \<Longrightarrow> emits P (random_chars d k)"
  by (induction k) (auto intro!: emits_bnd emits_random_choice)

lemma emits_Mkstemp_loop_no_shell:
  "emits (\<lambda>e. \<not> is_shell e) (Mkstemp_loop d content name_prefix name_suffix k)"
  by (induction k)
    (auto intro!: emits_bnd emits_random_chars_P emits_Stat emits_PushContent emits_case_prod
      simp: is_shell_def)

lemma Mkstemp_no_shell:
  assumes "Mkstemp d content name_prefix name_suffix s = Some (r, s')"
  shows "\<exists>es. s' = s @ es \<and> shell_cmds es = []"
  using emitsD[OF emits_Mkstemp_loop_no_shell assms[unfolded Mkstemp_def]] shell_cmds_no_shell
  by blast

lemma Mkstemp_loop_name:
  "Mkstemp_loop d content name_prefix name_suffix k s = Some (Inr (Some name), s') \<Longrightarrow> name \<noteq> []"
proof (induction k arbitrary: s)
  case 0
  then show ?case by (simp add: ret_def)
next
  case (Suc k)
  from Suc.prems show ?case
    apply (simp del: random_chars.simps)
    apply (erule bnd_InrE)
    apply (simp add: Stat_apply bnd_apply[of "Stat _ _"] PushContent_apply bnd_apply[of "PushContent _ _ _"] ret_apply split: prod.splits if_splits)
    using Suc.IH apply auto
    done
qed

lemma Mkstemp_name: "Mkstemp d content name_prefix name_suffix s = Some (Inr (Some name), s') \<Longrightarrow> name \<noteq> []"
  unfolding Mkstemp_def by (rule Mkstemp_loop_name)

lemma Shell_direct:
  "IsShellOk d cmd \<Longrightarrow> Shell d n cmd s
     = Some (Inr (RetTuple (fst (dev_Shell d s cmd)) (snd (dev_Shell d s cmd))), s @ [EShell cmd])"
  by (cases n) (simp_all add: io_simps split: prod.splits)

lemma try_finally_apply:
  "try_finally body fin s = (case body s of None \<Rightarrow> None
     | Some (r, s') \<Rightarrow> (case fin s' of None \<Rightarrow> None
         | Some (Inl e, s'') \<Rightarrow> Some (Inl e, s'') | Some (Inr _, s'') \<Rightarrow> Some (r, s'')))"
  by (simp add: try_finally_def)

lemma unpack_apply: "unpack (RetTuple out code) s = Some (Inr (out, code), s)"
  by (simp add: unpack_def ret_def)

lemma WrappedShell_both:
  assumes script: "Mkstemp d (concat (map (\<lambda>l. l @ [CHR 0x0A]) commands)) ''python-adb'' ''.sh'' s
                   = Some (Inr (Some sc), s1)"
    and outfile: "Mkstemp d [] ''python-adb'' ''.txt'' s1 = Some (Inr (Some out), s2)"
    and run: "Shell d n (''sh '' @ sc @ '' &> '' @ out) s2 = Some (r1, t1)"
  shows "WrappedShell d n commands s =
     (case Shell d n (''rm '' @ out) (snd (after_script d out r1 t1)) of
        None \<Rightarrow> None
      | Some (r2, t2) \<Rightarrow>
          (case Shell d n (''rm '' @ sc) t2 of
             None \<Rightarrow> None
           | Some (r3, t3) \<Rightarrow>
               Some (case r3 of
                       Inl e \<Rightarrow> Inl e
                     | Inr _ \<Rightarrow> (case r2 of Inl e \<Rightarrow> Inl e
                                | Inr _ \<Rightarrow> fst (after_script d out r1 t1)),
                     t3)))"
proof -
  from script have sc: "sc \<noteq> []" using Mkstemp_name by blast
  from outfile have out: "out \<noteq> []" using Mkstemp_name by blast
  have body: "bnd (Shell d n (''sh '' @ sc @ '' &> '' @ out)) (\<lambda>r.
               bnd (unpack r) (\<lambda>(_, exit_code).
               bnd (PullContent d out) (\<lambda>out. ret (RetTuple out exit_code)))) s2
             = Some (after_script d out r1 t1)"
    using run
    by (cases r1; cases "projr r1")
      (auto simp: bnd_apply after_script_def unpack_def raise_apply ret_apply PullContent_apply
        split: shell_ret.splits)
  obtain b t1' where ab: "after_script d out r1 t1 = (b, t1')" by (cases "after_script d out r1 t1")
  have unfold: "WrappedShell d n commands s =
      try_finally
        (try_finally (\<lambda>s. Some (b, t1')) (Shell d n (''rm '' @ out)))
        (Shell d n (''rm '' @ sc)) s2"
    using sc out script outfile body ab
    by (simp add: WrappedShell_def WrappedShell_body_def bnd_apply[of "Mkstemp _ _ _ _"]
        truthy_str_def ret_apply try_finally_apply or_empty_def)
  show ?thesis
  proof (cases "Shell d n (''rm '' @ out) t1'")
    case None
    then show ?thesis by (simp add: unfold ab try_finally_apply)
  next
    case (Some a2)
    obtain r2 t2 where a2: "a2 = (r2, t2)" by (cases a2)
    show ?thesis
    proof (cases "Shell d n (''rm '' @ sc) t2")
      case None
      with Some a2 show ?thesis
        by (cases r2) (simp_all add: unfold ab try_finally_apply)
    next
      case (Some a3)
      obtain r3 t3 where a3: "a3 = (r3, t3)" by (cases a3)
      from \<open>Shell d n (''rm '' @ out) t1' = Some a2\<close> a2 Some a3 show ?thesis
        by (cases r2; cases r3) (simp_all add: unfold ab try_finally_apply)
    qed
  qed
qed

lemma WrappedShell_no_script:
  assumes "Mkstemp d (concat (map (\<lambda>l. l @ [CHR 0x0A]) commands)) ''python-adb'' ''.sh'' s
             = Some (Inr None, s1)"
  shows "WrappedShell d n commands s = Some (Inr RetFalse, s1)"
  using assms
  by (simp add: WrappedShell_def WrappedShell_body_def bnd_apply truthy_str_def ret_apply)

lemma WrappedShell_no_outfile:
  assumes script: "Mkstemp d (concat (map (\<lambda>l. l @ [CHR 0x0A]) commands)) ''python-adb'' ''.sh'' s
                   = Some (Inr (Some sc), s1)"
    and outfile: "Mkstemp d [] ''python-adb'' ''.txt'' s1 = Some (Inr None, s2)"
  shows "WrappedShell d n commands s =
     (case Shell d n (''rm '' @ sc) s2 of
        None \<Rightarrow> None
      | Some (r3, t3) \<Rightarrow> Some (case r3 of Inl e \<Rightarrow> Inl e | Inr _ \<Rightarrow> Inr RetFalse, t3))"
proof -
  from script have sc: "sc \<noteq> []" using Mkstemp_name by blast
  have unfold: "WrappedShell d n commands s =
      try_finally (\<lambda>s. Some (Inr RetFalse, s2)) (Shell d n (''rm '' @ sc)) s1"
    using sc script outfile
    by (simp add: WrappedShell_def WrappedShell_body_def bnd_apply[of "Mkstemp _ _ _ _"]
        truthy_str_def ret_apply try_finally_apply or_empty_def)
  show ?thesis
  proof (cases "Shell d n (''rm '' @ sc) s2")
    case None
    then show ?thesis by (simp add: unfold try_finally_apply)
  next
    case (Some a3)
    obtain r3 t3 where "a3 = (r3, t3)" by (cases a3)
    with Some show ?thesis by (cases r3) (simp_all add: unfold try_finally_apply)
  qed
qed

text \<open>
  Claim C8. When the script file cannot be allocated, \<open>WrappedShell\<close> returns \<open>False\<close> and
  no shell command has been sent. When the output file cannot be allocated, it makes the one
  call \<open>self.Shell('rm script')\<close> and returns \<open>False\<close>: the script is not executed. When
  both files are allocated and the execution of the script returns, with any outcome: a pair
  with any exit code, the \<open>False\<close> of a nested wrapped shell, whose unpacking raises
  \<open>TypeError\<close>, or an exception, then \<open>WrappedShell\<close> makes exactly the two calls
  \<open>self.Shell('rm outfile')\<close> and \<open>self.Shell('rm script')\<close>, in this order, and what it
  returns or raises is what the execution came to, unless a removal raises. No hypothesis
  is made on which commands the device takes directly. Where the device takes the two \<open>rm\<close>
  commands directly, these are the last two events of the trace, right after the
  execution and the pull of its output.
\<close>

theorem WrappedShell_cleanup:
  assumes "Mkstemp d (concat (map (\<lambda>l. l @ [CHR 0x0A]) commands)) ''python-adb'' ''.sh'' s
             = Some (Inr script, s1)"
    and "Mkstemp d [] ''python-adb'' ''.txt'' s1 = Some (Inr outfile, s2)"
  shows
    "case script of
       None \<Rightarrow>
         WrappedShell d n commands s = Some (Inr RetFalse, s1)
         \<and> shell_cmds (drop (length s) s1) = []
     | Some sc \<Rightarrow>
         shell_cmds (drop (length s) s2) = []
         \<and> (case outfile of
              None \<Rightarrow>
                WrappedShell d n commands s =
                  (case Shell d n (''rm '' @ sc) s2 of
                     None \<Rightarrow> None
                   | Some (r3, t3) \<Rightarrow>
                       Some (case r3 of Inl e \<Rightarrow> Inl e | Inr _ \<Rightarrow> Inr RetFalse, t3))
                \<and> (IsShellOk d (''rm '' @ sc) \<longrightarrow>
                     WrappedShell d n commands s
                       = Some (Inr RetFalse, s2 @ [EShell (''rm '' @ sc)]))
            | Some out \<Rightarrow>
                (\<forall>r1 t1. Shell d n (''sh '' @ sc @ '' &> '' @ out) s2 = Some (r1, t1) \<longrightarrow>
                   WrappedShell d n commands s =
                     (case Shell d n (''rm '' @ out) (snd (after_script d out r1 t1)) of
                        None \<Rightarrow> None
                      | Some (r2, t2) \<Rightarrow>
                          (case Shell d n (''rm '' @ sc) t2 of
                             None \<Rightarrow> None
                           | Some (r3, t3) \<Rightarrow>
                               Some (case r3 of
                                       Inl e \<Rightarrow> Inl e
                                     | Inr _ \<Rightarrow>
                                         (case r2 of
                                            Inl e \<Rightarrow> Inl e
                                          | Inr _ \<Rightarrow> fst (after_script d out r1 t1)),
                                     t3)))
                   \<and> (IsShellOk d (''rm '' @ out) \<and> IsShellOk d (''rm '' @ sc) \<longrightarrow>
                        WrappedShell d n commands s
                          = Some (fst (after_script d out r1 t1),
                                  snd (after_script d out r1 t1)
                                  @ [EShell (''rm '' @ out), EShell (''rm '' @ sc)]))))"
proof (cases script)
  case None
  from Mkstemp_no_shell[OF assms(1)] have "shell_cmds (drop (length s) s1) = []" by auto
  moreover have "WrappedShell d n commands s = Some (Inr RetFalse, s1)"
    using WrappedShell_no_script assms(1) None by blast
  ultimately show ?thesis unfolding None option.case by blast
next
  case (Some sc)
  note script = assms(1)[unfolded Some]
  from Mkstemp_no_shell[OF assms(1)] obtain es1 where es1: "s1 = s @ es1" "shell_cmds es1 = []"
    by blast
  from Mkstemp_no_shell[OF assms(2)] obtain es2 where es2: "s2 = s1 @ es2" "shell_cmds es2 = []"
    by blast
  have quiet: "shell_cmds (drop (length s) s2) = []" using es1 es2 by simp
  show ?thesis
  proof (cases outfile)
    case None
    note gen = WrappedShell_no_outfile[OF script assms(2)[unfolded None], of n]
    have "WrappedShell d n commands s = Some (Inr RetFalse, s2 @ [EShell (''rm '' @ sc)])"
      if "IsShellOk d (''rm '' @ sc)"
      using gen that by (simp add: Shell_direct)
    then have "IsShellOk d (''rm '' @ sc) \<longrightarrow>
        WrappedShell d n commands s = Some (Inr RetFalse, s2 @ [EShell (''rm '' @ sc)])"
      by blast
    with gen quiet show ?thesis
      unfolding \<open>script = Some sc\<close> None option.case by blast
  next
    case (Some out)
    note outfile = assms(2)[unfolded Some]
    have both: "WrappedShell d n commands s =
                     (case Shell d n (''rm '' @ out) (snd (after_script d out r1 t1)) of
                        None \<Rightarrow> None
                      | Some (r2, t2) \<Rightarrow>
                          (case Shell d n (''rm '' @ sc) t2 of
                             None \<Rightarrow> None
                           | Some (r3, t3) \<Rightarrow>
                               Some (case r3 of
                                       Inl e \<Rightarrow> Inl e
                                     | Inr _ \<Rightarrow>
                                         (case r2 of
                                            Inl e \<Rightarrow> Inl e
                                          | Inr _ \<Rightarrow> fst (after_script d out r1 t1)),
                                     t3)))
                   \<and> (IsShellOk d (''rm '' @ out) \<and> IsShellOk d (''rm '' @ sc) \<longrightarrow>
                        WrappedShell d n commands s
                          = Some (fst (after_script d out r1 t1),
                                  snd (after_script d out r1 t1)
                                  @ [EShell (''rm '' @ out), EShell (''rm '' @ sc)]))"
      if run: "Shell d n (''sh '' @ sc @ '' &> '' @ out) s2 = Some (r1, t1)" for r1 t1
    proof -
      note gen = WrappedShell_both[OF script outfile run]
      have "WrappedShell d n commands s
              = Some (fst (after_script d out r1 t1),
                      snd (after_script d out r1 t1)
                      @ [EShell (''rm '' @ out), EShell (''rm '' @ sc)])"
        if "IsShellOk d (''rm '' @ out) \<and> IsShellOk d (''rm '' @ sc)"
        using gen that by (simp add: Shell_direct)
      with gen show ?thesis by blast
    qed
    show ?thesis
      unfolding \<open>script = Some sc\<close> Some option.case
      using both quiet by blast
  qed
qed

theorem WrappedShell_cleanup_witness:
  "Mkstemp flaky_device (concat (map (\<lambda>l. l @ [CHR 0x0A]) [''ls''])) ''python-adb'' ''.sh'' []
       = Some (Inr (Some example_script), example_trace1)
   \<and> Mkstemp flaky_device [] ''python-adb'' ''.txt'' example_trace1
       = Some (Inr (Some example_outfile), example_trace2)
   \<and> Shell flaky_device 1 (''sh '' @ example_script @ '' &> '' @ example_outfile) example_trace2
       = Some (Inr RetFalse, flaky_trace)
   \<and> IsShellOk flaky_device (''rm '' @ example_outfile)
   \<and> IsShellOk flaky_device (''rm '' @ example_script)
   \<and> WrappedShell flaky_device 1 [''ls''] []
       = Some (Inl TypeError,
               flaky_trace @ [EShell (''rm '' @ example_outfile), EShell (''rm '' @ example_script)])
   \<and> Mkstemp (fake_device ''usb1'' True no_files 1) (concat (map (\<lambda>l. l @ [CHR 0x0A]) [''ls'']))
       ''python-adb'' ''.sh'' [] = Some (Inr (Some example_script), example_trace1)
   \<and> Mkstemp (fake_device ''usb1'' True no_files 1) [] ''python-adb'' ''.txt'' example_trace1
       = Some (Inr (Some example_outfile), example_trace2)
   \<and> Shell (fake_device ''usb1'' True no_files 1) 0
         (''sh '' @ example_script @ '' &> '' @ example_outfile) example_trace2
       = Some (Inr (RetTuple (Some ''/sdcard'') (Some 1)),
               example_trace2 @ [EShell (''sh '' @ example_script @ '' &> '' @ example_outfile)])
   \<and> WrappedShell (fake_device ''usb1'' True no_files 1) 0 [''ls''] []
       = Some (Inr (RetTuple None (Some 1)),
           example_trace2
           @ [EShell (''sh '' @ example_script @ '' &> '' @ example_outfile),
              EPullContent example_outfile, EShell (''rm '' @ example_outfile),
              EShell (''rm '' @ example_script)])"
proof -
  let ?f = flaky_device
  let ?d = "fake_device ''usb1'' True no_files 1"
  let ?sh = "''sh '' @ example_script @ '' &> '' @ example_outfile"
  have f1: "Mkstemp ?f (concat (map (\<lambda>l. l @ [CHR 0x0A]) [''ls''])) ''python-adb'' ''.sh'' []
      = Some (Inr (Some example_script), example_trace1)"
    by code_simp
  have f2: "Mkstemp ?f [] ''python-adb'' ''.txt'' example_trace1
      = Some (Inr (Some example_outfile), example_trace2)"
    by code_simp
  have f3: "Shell ?f 1 ?sh example_trace2 = Some (Inr RetFalse, flaky_trace)"
    by code_simp
  have f4: "IsShellOk ?f (''rm '' @ example_outfile) \<and> IsShellOk ?f (''rm '' @ example_script)"
    by (simp add: flaky_device_def)
  have fa: "after_script ?f out (Inr RetFalse) t = (Inl TypeError, t)" for out t
    by (simp add: after_script_def)
  from WrappedShell_cleanup [OF f1 f2, of 1] f3 f4
  have "WrappedShell ?f 1 [''ls''] []
      = Some (fst (after_script ?f example_outfile (Inr RetFalse) flaky_trace),
              snd (after_script ?f example_outfile (Inr RetFalse) flaky_trace)
              @ [EShell (''rm '' @ example_outfile), EShell (''rm '' @ example_script)])"
    unfolding option.case by blast
  then have frun: "WrappedShell ?f 1 [''ls''] []
       = Some (Inl TypeError,
               flaky_trace @ [EShell (''rm '' @ example_outfile), EShell (''rm '' @ example_script)])"
    by (simp add: fa)
  have d1: "Mkstemp ?d (concat (map (\<lambda>l. l @ [CHR 0x0A]) [''ls''])) ''python-adb'' ''.sh'' []
      = Some (Inr (Some example_script), example_trace1)"
    by code_simp
  have d2: "Mkstemp ?d [] ''python-adb'' ''.txt'' example_trace1
      = Some (Inr (Some example_outfile), example_trace2)"
    by code_simp
  have ok: "IsShellOk ?d c" for c by (simp add: fake_device_def)
  have d3: "Shell ?d 0 ?sh example_trace2
      = Some (Inr (RetTuple (Some ''/sdcard'') (Some 1)), example_trace2 @ [EShell ?sh])"
    by code_simp
  have d4: "IsShellOk ?d (''rm '' @ example_outfile) \<and> IsShellOk ?d (''rm '' @ example_script)"
    using ok by blast
  have da: "after_script ?d out (Inr (RetTuple v c)) t
      = (Inr (RetTuple None c), t @ [EPullContent out])" for out v c t
    by (simp add: after_script_def fake_device_def no_files_def)
  from WrappedShell_cleanup [OF d1 d2, of 0] d3 d4
  have "WrappedShell ?d 0 [''ls''] []
      = Some (fst (after_script ?d example_outfile (Inr (RetTuple (Some ''/sdcard'') (Some 1)))
                     (example_trace2 @ [EShell ?sh])),
              snd (after_script ?d example_outfile (Inr (RetTuple (Some ''/sdcard'') (Some 1)))
                     (example_trace2 @ [EShell ?sh]))
              @ [EShell (''rm '' @ example_outfile), EShell (''rm '' @ example_script)])"
    unfolding option.case by blast
  then have drun: "WrappedShell ?d 0 [''ls''] []
       = Some (Inr (RetTuple None (Some 1)),
           example_trace2
           @ [EShell ?sh, EPullContent example_outfile, EShell (''rm '' @ example_outfile),
              EShell (''rm '' @ example_script)])"
    by (simp add: da)
  from f1 f2 f3 f4 frun d1 d2 d3 drun show ?thesis by blast
qed

section \<open>Waiting for a device that does not respond\<close>

lemma sleeps_le_length: "sleeps es \<le> length es"
  by (simp add: sleeps_def)

lemma WaitForDevice_loop_step:
  assumes "\<not> timeout < time_time d t - start" and "fst (dev_Stat d (t @ [ETime]) path) = None"
  shows "WaitForDevice_loop d path timeout start (Suc k) t
         = WaitForDevice_loop d path timeout start k (t @ [ETime, EStat path, ESleep])"
  using assms by (auto simp: io_simps split: prod.splits)

lemma WaitForDevice_loop_times_out:
  assumes clock: "\<forall>t es. time_time d t + real (sleeps es) / 10 \<le> time_time d (t @ es)"
    and never: "\<forall>t. fst (dev_Stat d t path) = None"
  shows "timeout < time_time d t - start + real k / 10
    \<Longrightarrow> \<exists>es. WaitForDevice_loop d path timeout start (Suc k) t = Some (Inr False, t @ es)
             \<and> list_all (poll_event path) es"
proof (induction k arbitrary: t)
  case 0
  then have "WaitForDevice_loop d path timeout start (Suc 0) t = Some (Inr False, t @ [ETime])"
    by (simp add: io_simps)
  moreover have "list_all (poll_event path) [ETime]" by (simp add: poll_event_def)
  ultimately show ?case by blast
next
  case (Suc k)
  let ?t3 = "t @ [ETime, EStat path, ESleep]"
  show ?case
  proof (cases "time_time d t - start > timeout")
    case True
    then have "WaitForDevice_loop d path timeout start (Suc (Suc k)) t = Some (Inr False, t @ [ETime])"
      by (simp add: io_simps)
    moreover have "list_all (poll_event path) [ETime]" by (simp add: poll_event_def)
    ultimately show ?thesis by blast
  next
    case False
    from clock have "time_time d t + real (sleeps [ETime, EStat path, ESleep]) / 10 \<le> time_time d ?t3"
      by blast
    then have adv: "time_time d t + 1 / 10 \<le> time_time d ?t3"
      by (simp add: sleeps_def)
    from Suc.prems have "timeout < time_time d t - start + real k / 10 + 1 / 10"
      by (simp add: field_simps)
    with adv have "timeout < time_time d ?t3 - start + real k / 10" by linarith
    from Suc.IH[OF this] obtain es where
      es: "WaitForDevice_loop d path timeout start (Suc k) ?t3 = Some (Inr False, ?t3 @ es)"
      "list_all (poll_event path) es"
      by blast
    from never have st: "fst (dev_Stat d (t @ [ETime]) path) = None" by blast
    have "WaitForDevice_loop d path timeout start (Suc (Suc k)) t
        = WaitForDevice_loop d path timeout start (Suc k) ?t3"
      using False st by (rule WaitForDevice_loop_step)
    with es(1) have run: "WaitForDevice_loop d path timeout start (Suc (Suc k)) t
        = Some (Inr False, t @ ([ETime, EStat path, ESleep] @ es))"
      by simp
    moreover have "list_all (poll_event path) ([ETime, EStat path, ESleep] @ es)"
      using es(2) by (simp add: poll_event_def)
    ultimately show ?thesis by blast
  qed
qed

lemma WaitForDevice_times_out:
  assumes clock: "\<forall>t es. time_time d t + real (sleeps es) / 10 \<le> time_time d (t @ es)"
    and never: "\<forall>t. fst (dev_Stat d t (or_empty (external_storage_path c))) = None"
    and fuel: "0 < n" "timeout < real (n - 1) / 10"
  shows "\<exists>es. WaitForDevice d c n timeout s = Some (Inr False, s @ es)
             \<and> list_all (poll_event (or_empty (external_storage_path c))) es"
proof (cases "truthy_str (external_storage_path c)")
  case False
  then have "WaitForDevice d c n timeout s = Some (Inr False, s @ [])"
    by (simp add: WaitForDevice_def io_simps)
  moreover have "list_all (poll_event (or_empty (external_storage_path c))) []" by simp
  ultimately show ?thesis by blast
next
  case True
  let ?path = "or_empty (external_storage_path c)"
  obtain k where n: "n = Suc k" using fuel(1) by (cases n) auto
  from clock have "time_time d s + real (sleeps [ETime]) / 10 \<le> time_time d (s @ [ETime])"
    by blast
  then have "time_time d s \<le> time_time d (s @ [ETime])" by (simp add: sleeps_def)
  with fuel(2) n have "timeout < time_time d (s @ [ETime]) - time_time d s + real k / 10"
    by simp
  from WaitForDevice_loop_times_out[OF clock never this] obtain es where
    es: "WaitForDevice_loop d ?path timeout (time_time d s) (Suc k) (s @ [ETime])
           = Some (Inr False, (s @ [ETime]) @ es)" "list_all (poll_event ?path) es"
    by blast
  have "WaitForDevice d c n timeout s = Some (Inr False, s @ (ETime # es))"
    using True es(1) n by (simp add: WaitForDevice_def io_simps)
  moreover have "list_all (poll_event ?path) (ETime # es)"
    using es(2) by (simp add: poll_event_def)
  ultimately show ?thesis by blast
qed

lemma WaitUntilFullyBooted_unresponsive_run:
  assumes "WaitForDevice d c n timeout (s @ [ETime]) = Some (Inr False, s')"
  shows "WaitUntilFullyBooted d c n timeout s = Some (Inr False, s')"
  using assms by (simp add: WaitUntilFullyBooted_def io_simps)

lemma emits_WaitForDevice_loop: "emits (poll_event path) (WaitForDevice_loop d path timeout start k)"
  by (induction k)
    (auto intro!: emits_bnd emits_time_now emits_Stat emits_time_sleep emits_case_prod
      simp: poll_event_def)

lemma emits_WaitForDevice:
  "emits (poll_event (or_empty (external_storage_path c))) (WaitForDevice d c n timeout)"
  unfolding WaitForDevice_def
  by (auto intro!: emits_bnd emits_time_now emits_WaitForDevice_loop simp: poll_event_def)

text \<open>
  Claim C7. When the cached external storage path is absent, \<open>WaitUntilFullyBooted\<close> reads
  the clock once and returns \<open>False\<close>. Whenever the first phase, \<open>WaitForDevice\<close>, returns
  \<open>False\<close>, \<open>WaitUntilFullyBooted\<close> returns \<open>False\<close> in the same state, and all it has done is
  read the clock, \<open>Stat\<close> the external storage path and sleep: no property has been asked
  for and no package manager command has been run. And the first phase does return \<open>False\<close>
  when \<open>Stat\<close> of the path never succeeds, provided the clock advances by at least a tenth of
  a second with each sleep and the bound \<open>n\<close> on the iterations exceeds what the timeout
  allows.
\<close>

theorem WaitUntilFullyBooted_unresponsive:
  "(\<not> truthy_str (external_storage_path c)
      \<longrightarrow> WaitUntilFullyBooted d c n timeout s = Some (Inr False, s @ [ETime]))
   \<and> (\<forall>s'. WaitForDevice d c n timeout (s @ [ETime]) = Some (Inr False, s')
        \<longrightarrow> WaitUntilFullyBooted d c n timeout s = Some (Inr False, s')
            \<and> (\<exists>es. s' = s @ ETime # es
                     \<and> list_all (poll_event (or_empty (external_storage_path c))) es))
   \<and> ((\<forall>t es. time_time d t + real (sleeps es) / 10 \<le> time_time d (t @ es))
        \<and> (\<forall>t. fst (dev_Stat d t (or_empty (external_storage_path c))) = None)
        \<and> 0 < n \<and> timeout < real (n - 1) / 10
      \<longrightarrow> (\<exists>es. WaitUntilFullyBooted d c n timeout s = Some (Inr False, s @ ETime # es)
                \<and> list_all (poll_event (or_empty (external_storage_path c))) es))"
proof (intro conjI impI allI)
  assume "\<not> truthy_str (external_storage_path c)"
  then show "WaitUntilFullyBooted d c n timeout s = Some (Inr False, s @ [ETime])"
    by (simp add: WaitUntilFullyBooted_def WaitForDevice_def io_simps)
next
  fix s' assume run: "WaitForDevice d c n timeout (s @ [ETime]) = Some (Inr False, s')"
  then show "WaitUntilFullyBooted d c n timeout s = Some (Inr False, s')"
    by (rule WaitUntilFullyBooted_unresponsive_run)
  from emitsD[OF emits_WaitForDevice run]
  show "\<exists>es. s' = s @ ETime # es \<and> list_all (poll_event (or_empty (external_storage_path c))) es"
    by auto
next
  assume h: "(\<forall>t es. time_time d t + real (sleeps es) / 10 \<le> time_time d (t @ es))
        \<and> (\<forall>t. fst (dev_Stat d t (or_empty (external_storage_path c))) = None)
        \<and> 0 < n \<and> timeout < real (n - 1) / 10"
  then have clock: "\<forall>t es. time_time d t + real (sleeps es) / 10 \<le> time_time d (t @ es)"
    and never: "\<forall>t. fst (dev_Stat d t (or_empty (external_storage_path c))) = None"
    and fuel: "0 < n" "timeout < real (n - 1) / 10"
    by blast+
  from WaitForDevice_times_out[OF clock never fuel, of "s @ [ETime]"] obtain es where
    es: "WaitForDevice d c n timeout (s @ [ETime]) = Some (Inr False, (s @ [ETime]) @ es)"
      "list_all (poll_event (or_empty (external_storage_path c))) es"
    by blast
  from WaitUntilFullyBooted_unresponsive_run[OF es(1)]
  have "WaitUntilFullyBooted d c n timeout s = Some (Inr False, s @ ETime # es)" by simp
  with es(2)
  show "\<exists>es. WaitUntilFullyBooted d c n timeout s = Some (Inr False, s @ ETime # es)
                \<and> list_all (poll_event (or_empty (external_storage_path c))) es"
    by blast
qed

theorem WaitUntilFullyBooted_unresponsive_witness:
  "(\<forall>t es. time_time (fake_device ''usb1'' True no_files 0) t + real (sleeps es) / 10
        \<le> time_time (fake_device ''usb1'' True no_files 0) (t @ es))
   \<and> (\<forall>t. fst (dev_Stat (fake_device ''usb1'' True no_files 0) t
              (or_empty (external_storage_path (cache_of None None)))) = None)
   \<and> (0::nat) < 32 \<and> (3::real) < real (32 - 1) / 10
   \<and> WaitUntilFullyBooted (fake_device ''usb1'' True no_files 0) (cache_of None None) 32 3 []
       = Some (Inr False, [ETime, ETime, ETime, EStat ''/sdcard'', ESleep, ETime])
   \<and> list_all (poll_event ''/sdcard'') [ETime, ETime, EStat ''/sdcard'', ESleep, ETime]"
proof -
  let ?d = "fake_device ''usb1'' True no_files 0"
  let ?c = "cache_of None None"
  have clock: "\<forall>t es. time_time ?d t + real (sleeps es) / 10 \<le> time_time ?d (t @ es)"
  proof (intro allI)
    fix t es
    have "real (sleeps es) / 10 \<le> real (length es)"
      using sleeps_le_length[of es] by simp
    then show "time_time ?d t + real (sleeps es) / 10 \<le> time_time ?d (t @ es)"
      by (simp add: fake_device_def)
  qed
  have never: "\<forall>t. fst (dev_Stat ?d t (or_empty (external_storage_path ?c))) = None"
    by (simp add: fake_device_def)
  have fuel: "(0::nat) < 32" "(3::real) < real (32 - 1) / 10" by simp_all
  have run: "WaitUntilFullyBooted ?d ?c 32 3 []
       = Some (Inr False, [ETime, ETime, ETime, EStat ''/sdcard'', ESleep, ETime])"
    by (simp add: WaitUntilFullyBooted_def WaitForDevice_def io_simps eval_nat_numeral
        fake_device_def cache_of_def truthy_str_def or_empty_def)
  from WaitUntilFullyBooted_unresponsive [of ?c ?d 32 3 "[]"] clock never fuel
  have "\<exists>es. WaitUntilFullyBooted ?d ?c 32 3 [] = Some (Inr False, [] @ ETime # es)
          \<and> list_all (poll_event (or_empty (external_storage_path ?c))) es"
    by blast
  with run have "list_all (poll_event (or_empty (external_storage_path ?c)))
      [ETime, ETime, EStat ''/sdcard'', ESleep, ETime]"
    by auto
  then have "list_all (poll_event ''/sdcard'') [ETime, ETime, EStat ''/sdcard'', ESleep, ETime]"
    by (simp add: cache_of_def or_empty_def)
  with clock never fuel run show ?thesis by blast
qed


end
